theory Spec2Isabelle
  imports Complex_Main "HOL-Library.Sublist" "HOL-Library.Log_Nat"
begin

section \<open>Python string primitives\<close>

text \<open>
  Texts are modelled as \<^typ>\<open>string\<close>, one \<^typ>\<open>char\<close> per character, with ASCII
  semantics: \<open>str.lower\<close> maps \<open>A..Z\<close> to \<open>a..z\<close> and leaves every other character
  alone, and the whitespace of \<open>str.split()\<close> and \<open>str.strip()\<close> is the ASCII
  whitespace of Python (tab, line feed, vertical tab, form feed, carriage return,
  the four separators \<open>0x1c..0x1f\<close> and the blank).
\<close>

definition is_space :: "char \<Rightarrow> bool" where
  "is_space c = ((of_char c :: nat) \<in> {9, 10, 11, 12, 13, 28, 29, 30, 31, 32})"

definition lower_char :: "char \<Rightarrow> char" where
  "lower_char c =
     (let n = (of_char c :: nat) in if 65 \<le> n \<and> n \<le> 90 then char_of (n + 32) else c)"

definition lower :: "string \<Rightarrow> string" where
  "lower s = map lower_char s"

text \<open>\<open>s.strip()\<close>: leading and trailing whitespace removed.\<close>

definition rstrip :: "string \<Rightarrow> string" where
  "rstrip s = rev (dropWhile is_space (rev s))"

definition strip :: "string \<Rightarrow> string" where
  "strip s = dropWhile is_space (rstrip s)"

text \<open>
  \<open>s.split()\<close>: the maximal runs of non-whitespace characters, in order. The first
  argument of \<open>split_aux\<close> is the run being read.
\<close>

fun split_aux :: "string \<Rightarrow> string \<Rightarrow> string list" where
  "split_aux cur [] = (if cur = [] then [] else [cur])"
| "split_aux cur (c # cs) =
     (if is_space c then (if cur = [] then split_aux [] cs else cur # split_aux [] cs)
      else split_aux (cur @ [c]) cs)"

definition split :: "string \<Rightarrow> string list" where
  "split s = split_aux [] s"

text \<open>\<open>sep.join(parts)\<close>.\<close>

fun join :: "string \<Rightarrow> string list \<Rightarrow> string" where
  "join sep [] = []"
| "join sep [p] = p"
| "join sep (p # q # ps) = p @ sep @ join sep (q # ps)"

text \<open>\<open>needle in hay\<close> on strings: \<open>needle\<close> occurs as a contiguous run of \<open>hay\<close>.\<close>

fun str_in :: "string \<Rightarrow> string \<Rightarrow> bool" where
  "str_in needle [] = (needle = [])"
| "str_in needle (c # cs) = (prefix needle (c # cs) \<or> str_in needle cs)"

text \<open>
  \<open>sorted(xs, key=k, reverse=True)\<close> and \<open>xs.sort(key=k, reverse=True)\<close>: descending
  in the key, and stable (entries with equal keys stay in their input order).
\<close>

definition sorted_desc :: "('a \<Rightarrow> nat) \<Rightarrow> 'a list \<Rightarrow> 'a list" where
  "sorted_desc k xs = sort_key (\<lambda>x. - int (k x)) xs"

section \<open>Deduplicator: \<open>deduplicate_phrases\<close>\<close>

text \<open>
  \<open>phrase_dict\<close> is a Python \<open>dict\<close> from the normalised phrase to the pair
  \<open>(phrase, timestamps)\<close>. Its iteration order is its insertion order, which the loop
  over \<open>phrase_dict.items()\<close> and the final \<open>list(phrase_dict.values())\<close> depend on, so it
  is an association list with unique keys: assigning to a key that is present keeps
  the key's place, assigning to a new key appends, \<open>del\<close> removes.
  The timestamps are only concatenated, so their type is left open.
\<close>

type_synonym 't keypoint = "string \<times> 't list"
type_synonym 't phrase_dict = "(string \<times> 't keypoint) list"

fun dict_set :: "string \<Rightarrow> 'v \<Rightarrow> (string \<times> 'v) list \<Rightarrow> (string \<times> 'v) list" where
  "dict_set k v [] = [(k, v)]"
| "dict_set k v ((k', v') # d) = (if k' = k then (k, v) # d else (k', v') # dict_set k v d)"

definition dict_del :: "string \<Rightarrow> (string \<times> 'v) list \<Rightarrow> (string \<times> 'v) list" where
  "dict_del k d = filter (\<lambda>(k', v). k' \<noteq> k) d"

definition normalize_phrase :: "string \<Rightarrow> string" where
  "normalize_phrase phrase = join '' '' (split (lower phrase))"

text \<open>One iteration of \<open>for phrase, timestamps in phrases_with_times\<close>.\<close>

definition dedup_step :: "'t phrase_dict \<Rightarrow> 't keypoint \<Rightarrow> 't phrase_dict" where
  "dedup_step phrase_dict pt =
     (let phrase = fst pt; timestamps = snd pt;
          normalized_phrase = normalize_phrase phrase
      in case map_of phrase_dict normalized_phrase of
           Some (existing_phrase, existing_times) \<Rightarrow>
             (let merged_times = existing_times @ timestamps
              in if length phrase > length existing_phrase
                 then dict_set normalized_phrase (phrase, merged_times) phrase_dict
                 else dict_set normalized_phrase (existing_phrase, merged_times) phrase_dict)
         | None \<Rightarrow>
             (case find (\<lambda>(existing_norm, e).
                       str_in normalized_phrase existing_norm \<or>
                       str_in existing_norm normalized_phrase) phrase_dict of
                Some (existing_norm, (existing_phrase, existing_times)) \<Rightarrow>
                  (let merged_times = existing_times @ timestamps
                   in if length phrase > length existing_phrase
                      then dict_set normalized_phrase (phrase, merged_times)
                             (dict_del existing_norm phrase_dict)
                      else dict_set existing_norm (existing_phrase, merged_times) phrase_dict)
              | None \<Rightarrow> dict_set normalized_phrase (phrase, timestamps) phrase_dict))"

definition deduplicate_phrases :: "'t keypoint list \<Rightarrow> 't keypoint list" where
  "deduplicate_phrases phrases_with_times =
     (if phrases_with_times = [] then phrases_with_times
      else sorted_desc (\<lambda>x. length (fst x)) (map snd (foldl dedup_step [] phrases_with_times)))"

section \<open>Stopword-ratio filter and phrase merger\<close>

subsection \<open>More string primitives\<close>

text \<open>\<open>hay.find(needle)\<close>: the first index at which \<open>needle\<close> occurs, \<open>None\<close> for \<open>-1\<close>.\<close>

fun str_find :: "string \<Rightarrow> string \<Rightarrow> nat option" where
  "str_find needle [] = (if needle = [] then Some 0 else None)"
| "str_find needle (c # cs) =
     (if prefix needle (c # cs) then Some 0 else map_option Suc (str_find needle cs))"

text \<open>The words of a phrase as the source counts them: \<open>len(p.split())\<close>.\<close>

definition word_count :: "string \<Rightarrow> nat" where
  "word_count p = length (split p)"

subsection \<open>The product \<open>len(filtered_phrases) * 0.35\<close>\<close>

text \<open>
  Python evaluates \<open>n * 0.35\<close> in IEEE-754 binary64. The literal \<open>0.35\<close> is the double
  \<open>6305039478318694 / 2^54\<close>, a little below 35/100, and the product of the integer and
  the double is rounded to 53 significant bits, ties to even. \<open>float_mul_0_35 n\<close> is that
  rounded product times \<open>2^54\<close>, so that the comparison with an integer and \<open>int(...)\<close> are
  integer arithmetic. (For instance \<open>int(180 * 0.35)\<close> is 62, not 63.)
\<close>

definition round_to_53_bits :: "int \<Rightarrow> int" where
  "round_to_53_bits N =
     (if bitlen N \<le> 53 then N
      else let s = nat (bitlen N - 53); q = N div 2 ^ s; r = N mod 2 ^ s; half = 2 ^ (s - 1)
           in (if half < r \<or> (r = half \<and> odd q) then q + 1 else q) * 2 ^ s)"

definition float_mul_0_35 :: "nat \<Rightarrow> int" where
  "float_mul_0_35 n = round_to_53_bits (int n * 6305039478318694)"

subsection \<open>Candidates\<close>

text \<open>
  A candidate \<open>kw\<close> is a \<open>(text, score)\<close> tuple whose text may be \<open>None\<close>; anything that
  is not a non-empty tuple or list is \<open>Malformed\<close> and skipped by the filters.
\<close>

datatype 's candidate = Malformed | Cand "string option" 's

fun candidate_text :: "'s candidate \<Rightarrow> string option" where
  "candidate_text Malformed = None"
| "candidate_text (Cand None sc) = Some []"
| "candidate_text (Cand (Some t) sc) = Some t"

subsection \<open>\<open>filter_phrases_robust\<close>: the test applied to each candidate\<close>

text \<open>
  The stopwords are a Python \<open>set\<close> of strings. The parameter \<open>max_stopword_ratio\<close> of
  the source is never read and is left out. The \<open>try\<close> blocks of the source catch
  exceptions that string and set operations on candidates of this type do not raise.

  The ceiling \<open>max_allowed\<close> and the ratio \<open>stopword_count / total_words\<close> are quotients
  of small integers by the same divisor (or exact binary fractions), for which the
  comparison of the rounded doubles agrees with the exact comparison; they are
  rational numbers here.
\<close>

definition max_allowed :: "nat \<Rightarrow> rat" where
  "max_allowed total_words =
     (if total_words \<ge> 6 then 5 / of_nat total_words
      else if total_words = 5 then 4 / 5
      else if total_words = 4 then 3 / 4
      else if total_words = 3 then 2 / 3
      else 1 / 2)"

definition stopword_count :: "string set \<Rightarrow> string list \<Rightarrow> nat" where
  "stopword_count stopwords words_in_phrase = length (filter (\<lambda>word. word \<in> stopwords) words_in_phrase)"

text \<open>\<open>next((w for w in words_in_phrase if w not in stopwords), "")\<close>.\<close>

definition first_non_stopword :: "string set \<Rightarrow> string list \<Rightarrow> string" where
  "first_non_stopword stopwords words_in_phrase =
     (case find (\<lambda>w. w \<notin> stopwords) words_in_phrase of Some w \<Rightarrow> w | None \<Rightarrow> [])"

definition keeps_phrase :: "string set \<Rightarrow> string \<Rightarrow> bool" where
  "keeps_phrase stopwords phrase =
     (phrase \<noteq> [] \<and> CHR '' '' \<in> set phrase \<and>
      (let words_in_phrase = split phrase;
           count = stopword_count stopwords words_in_phrase;
           total_words = length words_in_phrase
       in words_in_phrase \<noteq> [] \<and>
          total_words > 0 \<and> of_nat count / of_nat total_words \<le> max_allowed total_words \<and>
          count \<noteq> total_words \<and>
          (if total_words = 2 \<and> count = 1
           then 3 \<le> length (first_non_stopword stopwords words_in_phrase) else True)))"

text \<open>The first loop of \<open>filter_phrases_robust\<close>: the phrases appended to \<open>filtered_phrases\<close>.\<close>

definition stopword_filtered :: "'s candidate list \<Rightarrow> string set \<Rightarrow> string list" where
  "stopword_filtered phrases stopwords =
     filter (keeps_phrase stopwords) (List.map_filter candidate_text phrases)"

subsection \<open>\<open>find_common_sequence\<close> and \<open>merge_two_phrases\<close>\<close>

fun common_run :: "'a list \<Rightarrow> 'a list \<Rightarrow> nat" where
  "common_run (x # xs) (y # ys) = (if x = y then Suc (common_run xs ys) else 0)"
| "common_run xs ys = 0"

definition find_common_sequence :: "string list \<Rightarrow> string list \<Rightarrow> string list" where
  "find_common_sequence words1 words2 =
     (if words1 = [] \<or> words2 = [] then []
      else let words1_lower = map lower words1; words2_lower = map lower words2
           in snd (fold (\<lambda>i. fold (\<lambda>j (max_length, best_sequence).
                     if words1_lower ! i = words2_lower ! j
                     then (let len = common_run (drop i words1_lower) (drop j words2_lower)
                           in if len > max_length then (len, take len (drop i words1_lower))
                              else (max_length, best_sequence))
                     else (max_length, best_sequence))
                   [0..<length words2_lower])
                 [0..<length words1_lower] (0, [])))"

text \<open>
  \<open>merge_two_phrases\<close> looks for the shared run with a blank on both sides, in the
  phrases as they are: a run at the very start or end of a phrase is not found.
\<close>

definition merge_two_phrases :: "string \<Rightarrow> string \<Rightarrow> string list \<Rightarrow> string option" where
  "merge_two_phrases phrase1 phrase2 common_sequence =
     (if common_sequence = [] then None
      else let common_text = '' '' @ join '' '' common_sequence @ '' ''
           in case (str_find common_text (lower phrase1), str_find common_text (lower phrase2)) of
                (Some start1, Some start2) \<Rightarrow>
                  (let end1 = start1 + length common_text - 1;
                       end2 = start2 + length common_text - 1;
                       before1 = strip (take start1 phrase1);
                       after1 = strip (drop end1 phrase1);
                       before2 = strip (take start2 phrase2);
                       after2 = strip (drop end2 phrase2);
                       common = strip common_text
                   in Some (if length before1 > 0 \<and> length after2 > 0
                            then strip (before1 @ '' '' @ common @ '' '' @ after2)
                            else if length before2 > 0 \<and> length after1 > 0
                            then strip (before2 @ '' '' @ common @ '' '' @ after1)
                            else if length before1 > 0
                            then strip (before1 @ '' '' @ common @ '' '' @ after1)
                            else if length before2 > 0
                            then strip (before2 @ '' '' @ common @ '' '' @ after2)
                            else common))
              | _ \<Rightarrow> None)"

subsection \<open>\<open>merge_overlapping_phrases\<close>\<close>

text \<open>
  The body of the inner loop \<open>for j, other_phrase in enumerate(sorted_phrases)\<close>, on the
  state \<open>(best_merge, best_merge_length, merged_with)\<close>. The overlap ratio is compared
  with \<open>0.4\<close> as a rational number; for phrases of fewer than \<open>2^50\<close> words the
  comparison of the doubles gives the same answer.
\<close>

definition merge_candidate ::
  "nat set \<Rightarrow> nat \<Rightarrow> string \<Rightarrow> string list \<Rightarrow> nat \<times> string \<Rightarrow>
   string \<times> nat \<times> nat list \<Rightarrow> string \<times> nat \<times> nat list" where
  "merge_candidate used_indices i phrase phrase_words jo st =
     (let j = fst jo; other_phrase = snd jo;
          best_merge = fst st; best_merge_length = fst (snd st); merged_with = snd (snd st)
      in if i = j \<or> j \<in> used_indices then st
         else let other_words = split (strip (lower other_phrase));
                  shorter = min (length phrase_words) (length other_words);
                  min_overlap = (if shorter \<le> 4 then 2 else 3::nat)
              in if length phrase_words \<ge> 3 \<and> length other_words \<ge> 3
                 then (let common_sequence = find_common_sequence phrase_words other_words
                       in if length common_sequence \<ge> min_overlap \<and>
                             (of_nat (length common_sequence) / of_nat shorter :: rat) \<ge> 4 / 10
                          then (case merge_two_phrases phrase other_phrase common_sequence of
                                  None \<Rightarrow> st
                                | Some merged \<Rightarrow>
                                    if merged \<noteq> [] \<and> word_count merged > best_merge_length \<and>
                                       word_count merged > best_merge_length + 1
                                    then (merged, word_count merged, merged_with @ [j])
                                    else st)
                          else st)
                 else st)"

text \<open>
  The body of the outer loop, on the state \<open>(merged_phrases, used_indices)\<close>.
\<close>

definition merge_phrase ::
  "string list \<Rightarrow> nat \<times> string \<Rightarrow> string list \<times> nat set \<Rightarrow> string list \<times> nat set" where
  "merge_phrase sorted_phrases ip st =
     (let i = fst ip; phrase = snd ip; merged_phrases = fst st; used_indices = snd st
      in if i \<in> used_indices then st
         else let phrase_words = split (strip (lower phrase));
                  res = fold (merge_candidate used_indices i phrase phrase_words)
                          (enumerate 0 sorted_phrases) (phrase, length phrase_words, [])
              in (merged_phrases @ [fst res], insert i used_indices \<union> set (snd (snd res))))"

definition common_words :: "string set" where
  "common_words = {''de'', ''het'', ''een'', ''van'', ''in'', ''op'', ''met'', ''als'', ''voor'',
     ''aan'', ''er'', ''door'', ''om'', ''tot'', ''ook'', ''maar'', ''uit'', ''bij'', ''over'',
     ''nog'', ''naar'', ''dan'', ''of'', ''je'', ''ik'', ''ze'', ''zij'', ''hij'', ''wij'',
     ''jij'', ''u'', ''hun'', ''ons'', ''mijn'', ''jouw'', ''zijn'', ''haar'', ''hun'', ''dit'',
     ''dat'', ''deze'', ''die''}"

text \<open>The second loop: the phrases whose index was never marked as used.\<close>

definition keeps_unused :: "string \<Rightarrow> bool" where
  "keeps_unused phrase =
     (let phrase_words = split (strip (lower phrase))
      in if length phrase_words \<ge> 3 then True
         else if length phrase_words \<ge> 2
         then length (filter (\<lambda>w. w \<notin> common_words \<and> length w \<ge> 3) phrase_words) \<ge> 1
         else False)"

definition merge_overlapping_phrases :: "string list \<Rightarrow> string list" where
  "merge_overlapping_phrases phrases =
     (if length phrases \<le> 1 then phrases
      else let sorted_phrases = sorted_desc word_count phrases;
               st = fold (merge_phrase sorted_phrases) (enumerate 0 sorted_phrases) ([], {})
           in fst st @
              map snd (filter (\<lambda>ip. fst ip \<notin> snd st \<and> keeps_unused (snd ip))
                        (enumerate 0 sorted_phrases)))"

subsection \<open>\<open>remove_true_subphrases\<close>\<close>

definition is_subphrase_of :: "string \<Rightarrow> string \<Rightarrow> bool" where
  "is_subphrase_of phrase existing_phrase =
     (let phrase_lower = strip (lower phrase); existing_lower = strip (lower existing_phrase)
      in length (split phrase_lower) < length (split existing_lower) \<and>
         str_in ('' '' @ phrase_lower @ '' '') ('' '' @ existing_lower @ '' ''))"

definition subphrase_step :: "string list \<Rightarrow> string \<Rightarrow> string list" where
  "subphrase_step filtered_phrases phrase =
     (if list_ex (is_subphrase_of phrase) filtered_phrases then filtered_phrases
      else filtered_phrases @ [phrase])"

definition remove_true_subphrases :: "string list \<Rightarrow> string list" where
  "remove_true_subphrases phrases =
     (if length phrases \<le> 1 then phrases
      else foldl subphrase_step [] (sorted_desc word_count phrases))"

subsection \<open>\<open>filter_phrases_robust\<close>\<close>

text \<open>
  The post-processing of more than 20 surviving phrases: the 2-word phrases are cut to
  \<open>int(len(filtered_phrases) * 0.35)\<close> when there are more of them than that product.
\<close>

definition balance_phrases :: "string list \<Rightarrow> string list" where
  "balance_phrases filtered_phrases =
     (let long_phrases = filter (\<lambda>p. word_count p \<ge> 4) filtered_phrases;
          medium_phrases = filter (\<lambda>p. word_count p = 3) filtered_phrases;
          two_word_phrases = filter (\<lambda>p. word_count p = 2) filtered_phrases;
          product = float_mul_0_35 (length filtered_phrases)
      in long_phrases @ medium_phrases @
         (if product < int (length two_word_phrases) * 2 ^ 54
          then take (nat (product div 2 ^ 54)) two_word_phrases else two_word_phrases))"

definition filter_phrases_robust :: "'s candidate list \<Rightarrow> string set \<Rightarrow> string list" where
  "filter_phrases_robust phrases stopwords =
     (if phrases = [] \<or> stopwords = {} then []
      else let filtered_phrases = stopword_filtered phrases stopwords
           in if length filtered_phrases > 20
              then remove_true_subphrases (merge_overlapping_phrases (balance_phrases filtered_phrases))
              else filtered_phrases)"

subsection \<open>\<open>filter_words_robust\<close>\<close>

definition keeps_word :: "string set \<Rightarrow> string \<Rightarrow> bool" where
  "keeps_word stopwords word = (word \<noteq> [] \<and> CHR '' '' \<notin> set word \<and> word \<notin> stopwords)"

definition filter_words_robust :: "'s candidate list \<Rightarrow> string set \<Rightarrow> string list" where
  "filter_words_robust words stopwords =
     (if words = [] \<or> stopwords = {} then []
      else filter (keeps_word stopwords) (List.map_filter candidate_text words))"

section \<open>Artifact filter and segment merger\<close>

subsection \<open>More string primitives\<close>

text \<open>
  \<open>hay.count(needle)\<close>: the occurrences of \<open>needle\<close> found from left to right without
  overlap. After a match the search resumes behind it; \<open>skip\<close> is the number of
  characters still to pass over. For the empty needle Python answers \<open>len(hay) + 1\<close>.
\<close>

fun count_from :: "string \<Rightarrow> nat \<Rightarrow> string \<Rightarrow> nat" where
  "count_from needle skip [] = 0"
| "count_from needle skip (c # cs) =
     (if skip > 0 then count_from needle (skip - 1) cs
      else if prefix needle (c # cs) then Suc (count_from needle (length needle - 1) cs)
      else count_from needle 0 cs)"

definition str_count :: "string \<Rightarrow> string \<Rightarrow> nat" where
  "str_count needle hay = (if needle = [] then length hay + 1 else count_from needle 0 hay)"

text \<open>\<open>s.replace("  ", " ")\<close>: each pair of blanks met from the left becomes one blank.\<close>

fun replace_double_space :: "string \<Rightarrow> string" where
  "replace_double_space (c1 # c2 # cs) =
     (if c1 = CHR '' '' \<and> c2 = CHR '' '' then CHR '' '' # replace_double_space cs
      else c1 # replace_double_space (c2 # cs))"
| "replace_double_space cs = cs"

subsection \<open>\<open>is_whisper_artifact\<close>\<close>

definition whisper_prompt_indicators :: "string list" where
  "whisper_prompt_indicators =
     [''deze transcriptie moet alle belangrijke woorden en zinnen bevatten'',
      ''maar muziekteksten en jingles kunnen worden overgeslagen'',
      ''transcriptie moet alle belangrijke woorden en zinnen bevatten'',
      ''muziekteksten en jingles kunnen worden overgeslagen'',
      ''transcriptie'',
      ''whisper'',
      ''openai'',
      ''api'',
      ''prompt'',
      ''instruction'',
      ''alle belangrijke woorden'',
      ''zinnen bevatten'',
      ''muziekteksten en jingles'',
      ''kunnen worden overgeslagen'',
      ''radio-uitzending'',
      ''nieuws discussies interviews'',
      ''focus op spraak'',
      ''niet op muziek'',
      ''belangrijke woorden en zinnen'',
      ''muziekteksten en jingles kunnen worden overgeslagen'']"

definition suspicious_patterns :: "string list" where
  "suspicious_patterns =
     [''deze transcriptie'',
      ''transcriptie moet'',
      ''muziekteksten en jingles'',
      ''belangrijke woorden'',
      ''zinnen bevatten'',
      ''overgeslagen'',
      ''focus op spraak'',
      ''niet op muziek'',
      ''nederlandse radio-uitzending'',
      ''nieuws discussies interviews'',
      ''radio-uitzending met nieuws'',
      ''discussies interviews en gesprekken'',
      ''focus op spraak en gesprekken'',
      ''transcriptie moet alle belangrijke'',
      ''woorden en zinnen bevatten'',
      ''maar muziekteksten en jingles'',
      ''kunnen worden overgeslagen'']"

text \<open>
  The check for a three-word phrase that occurs more than once, made when the text has
  more than three words and more than 20 characters other than blanks.
\<close>

definition repeated_phrase :: "string \<Rightarrow> string list \<Rightarrow> bool" where
  "repeated_phrase text_lower words =
     (length words > 3 \<and> length (filter (\<lambda>c. c \<noteq> CHR '' '') text_lower) > 20 \<and>
      list_ex (\<lambda>i. let phrase = join '' '' (take 3 (drop i words))
                   in length phrase > 10 \<and> str_count phrase text_lower > 1)
        [0..<length words - 2])"

text \<open>
  The loop over \<open>words\<close> that counts the words of more than three characters in
  \<open>word_counts\<close> (\<open>word_counts.get(word, 0)\<close>) and stops at the first count above 3.
\<close>

fun excessive_repetition :: "(string \<Rightarrow> nat) \<Rightarrow> string list \<Rightarrow> bool" where
  "excessive_repetition word_counts [] = False"
| "excessive_repetition word_counts (word # ws) =
     (if length word > 3
      then (let n = word_counts word + 1
            in if n > 3 then True else excessive_repetition (word_counts(word := n)) ws)
      else excessive_repetition word_counts ws)"

text \<open>The last check reads \<open>text\<close> itself, not \<open>text_lower\<close>.\<close>

definition long_repeated_sequence :: "string \<Rightarrow> bool" where
  "long_repeated_sequence text =
     (length text > 100 \<and>
      list_ex (\<lambda>i. str_count (take 20 (drop i text)) text > 2) [0..<length text - 20])"

definition is_whisper_artifact :: "string \<Rightarrow> bool" where
  "is_whisper_artifact text =
     (if text = [] then False
      else let text_lower = strip (lower text)
           in if list_ex (\<lambda>indicator. str_in indicator text_lower) whisper_prompt_indicators
              then True
              else if list_ex (\<lambda>pattern. str_in pattern text_lower) suspicious_patterns
              then True
              else let words = split text_lower
                   in if repeated_phrase text_lower words then True
                      else if excessive_repetition (\<lambda>w. 0) words then True
                      else long_repeated_sequence text)"

text \<open>
  The function of the same name in \<open>utils.py\<close>, which the transcription module
  imports: texts of fewer than 10 characters are never artifacts, and there are only
  the two substring checks.
\<close>

definition utils_indicators :: "string list" where
  "utils_indicators =
     [''transcriptie'',
      ''nederlandse radio-uitzending'',
      ''nieuws discussies interviews'',
      ''focus op spraak'',
      ''niet op muziek'',
      ''belangrijke woorden'',
      ''zinnen bevatten'',
      ''muziekteksten en jingles'',
      ''kunnen worden overgeslagen'',
      ''radio-uitzending'',
      ''nieuws discussies interviews'',
      ''focus op spraak'',
      ''niet op muziek'',
      ''belangrijke woorden en zinnen'',
      ''muziekteksten en jingles kunnen worden overgeslagen'']"

definition utils_patterns :: "string list" where
  "utils_patterns =
     [''deze transcriptie'',
      ''transcriptie moet'',
      ''muziekteksten en jingles'',
      ''belangrijke woorden'',
      ''zinnen bevatten'',
      ''overgeslagen'',
      ''focus op spraak'',
      ''niet op muziek'',
      ''nederlandse radio-uitzending'',
      ''nieuws discussies interviews'',
      ''radio-uitzending met nieuws'',
      ''discussies interviews en gesprekken'',
      ''focus op spraak en gesprekken'']"

definition is_whisper_artifact_utils :: "string \<Rightarrow> bool" where
  "is_whisper_artifact_utils text =
     (if text = [] \<or> length (strip text) < 10 then False
      else let text_lower = strip (lower text)
           in if list_ex (\<lambda>indicator. str_in indicator text_lower) utils_indicators then True
              else if list_ex (\<lambda>pattern. str_in pattern text_lower) utils_patterns then True
              else False)"

subsection \<open>\<open>calculate_text_similarity\<close>\<close>

text \<open>
  The similarity is a Python float. The model computes it in exact rational
  arithmetic: the value 0.9 of the substring case and the Jaccard quotient are the
  rationals that the doubles approximate. Where a sum of doubles meets a threshold
  exactly, the rounded and the exact comparison can differ; what is proved below about
  the segment merger either goes through the substring case or holds whatever the
  comparisons answer.
\<close>

definition max_common_length :: "string list \<Rightarrow> string list \<Rightarrow> nat" where
  "max_common_length words1_list words2_list =
     fold (\<lambda>i. fold (\<lambda>j m. max m (common_run (drop i words1_list) (drop j words2_list)))
                  [0..<length words2_list])
       [0..<length words1_list] 0"

definition calculate_text_similarity :: "string \<Rightarrow> string \<Rightarrow> rat" where
  "calculate_text_similarity text1 text2 =
     (if text1 = [] \<or> text2 = [] then 0
      else let text1_lower = strip (lower text1); text2_lower = strip (lower text2)
           in if str_in text1_lower text2_lower \<or> str_in text2_lower text1_lower then 9 / 10
              else let words1 = set (split text1_lower); words2 = set (split text2_lower)
                   in if words1 = {} \<or> words2 = {} then 0
                      else let intersection = card (words1 \<inter> words2);
                               union = card (words1 \<union> words2)
                           in if union = 0 then 0
                              else let base_similarity = of_nat intersection / of_nat union;
                                       boosted =
                                         (if max_common_length (split text1_lower) (split text2_lower) \<ge> 3
                                          then base_similarity + 2 / 10 else base_similarity)
                                   in min 1 boosted)"

definition is_substring_or_similar :: "string \<Rightarrow> string \<Rightarrow> bool" where
  "is_substring_or_similar text1 text2 =
     (if text1 = [] \<or> text2 = [] then False
      else let text1_lower = strip (lower text1); text2_lower = strip (lower text2)
           in if str_in text1_lower text2_lower \<or> str_in text2_lower text1_lower then True
              else calculate_text_similarity text1_lower text2_lower > 8 / 10)"

subsection \<open>\<open>merge_text_segments\<close>\<close>

text \<open>\<open>max(unique_texts, key=len)\<close>: the first text of greatest length.\<close>

fun longest_text :: "string \<Rightarrow> string list \<Rightarrow> string" where
  "longest_text best [] = best"
| "longest_text best (t # ts) = longest_text (if length t > length best then t else best) ts"

definition merge_text_segments :: "string list \<Rightarrow> string" where
  "merge_text_segments texts =
     (case texts of
        [] \<Rightarrow> []
      | [t] \<Rightarrow> t
      | _ \<Rightarrow>
        (case filter (\<lambda>t. t \<noteq> []) (map strip texts) of
           [] \<Rightarrow> []
         | [u] \<Rightarrow> u
         | u # us \<Rightarrow>
           (let base_text = longest_text u us;
                merged_parts = base_text #
                  filter (\<lambda>t. t \<noteq> base_text \<and> \<not> is_substring_or_similar t base_text) (u # us)
            in if length merged_parts = 1 then base_text
               else strip (replace_double_space (join '' '' merged_parts)))))"

subsection \<open>\<open>merge_similar_segments\<close>\<close>

text \<open>
  A segment is a dictionary with the keys \<open>start\<close>, \<open>end\<close> and \<open>text\<close>. The times are
  only compared, never computed with.
\<close>

record segment =
  seg_start :: real
  seg_end :: real
  seg_text :: string

text \<open>
  The body of the loop \<open>for i, seg1 in enumerate(valid_segments)\<close>, on the state
  \<open>(merged_segments, processed_indices)\<close>. The inner loop collects the later segments
  that are not yet processed and are similar enough to \<open>seg1\<close>.
\<close>

definition merge_group ::
  "rat \<Rightarrow> segment list \<Rightarrow> nat \<times> segment \<Rightarrow> segment list \<times> nat set \<Rightarrow> segment list \<times> nat set" where
  "merge_group similarity_threshold valid_segments is1 st =
     (let i = fst is1; seg1 = snd is1; merged_segments = fst st; processed_indices = snd st
      in if i \<in> processed_indices then st
         else let found = filter (\<lambda>js. fst js \<notin> processed_indices \<and>
                                 calculate_text_similarity (seg_text seg1) (seg_text (snd js))
                                   \<ge> similarity_threshold)
                            (enumerate (i + 1) (drop (i + 1) valid_segments));
                  similar_segments = seg1 # map snd found;
                  processed = insert i processed_indices \<union> set (map fst found)
              in if length similar_segments > 1
                 then (merged_segments @
                         [\<lparr>seg_start = fold min (map seg_start (map snd found)) (seg_start seg1),
                           seg_end = fold max (map seg_end (map snd found)) (seg_end seg1),
                           seg_text = merge_text_segments (map seg_text similar_segments)\<rparr>],
                       processed)
                 else (merged_segments @ [seg1], processed))"

definition merge_similar_segments :: "segment list \<Rightarrow> rat \<Rightarrow> real option \<Rightarrow> segment list" where
  "merge_similar_segments segments similarity_threshold target_timestamp =
     (if length segments \<le> 1 then segments
      else let target_segments =
                 (case target_timestamp of
                    None \<Rightarrow> segments
                  | Some t \<Rightarrow> filter (\<lambda>seg. \<bar>seg_start seg - t\<bar> \<le> 1 / 2) segments)
           in if target_segments = [] then segments
              else let valid_segments =
                         filter (\<lambda>seg. strip (seg_text seg) \<noteq> [] \<and>
                                       \<not> is_whisper_artifact (seg_text seg)) target_segments
                   in fst (fold (merge_group similarity_threshold valid_segments)
                             (enumerate 0 valid_segments) ([], {})))"

subsection \<open>The timestamp lookup of \<open>transcribe_and_extract\<close>\<close>

text \<open>
  The prompt handed to the transcriber, and the loop that fills \<open>keypoint_times\<close>: it
  runs over \<open>all_segments\<close>, the segments as the transcriber returned them.
\<close>

definition whisper_prompt :: string where
  "whisper_prompt = ''Dit is een Nederlandse radio-uitzending met nieuws, discussies, interviews en gesprekken. Focus op spraak en gesprekken, niet op muziek. De transcriptie moet alle belangrijke woorden en zinnen bevatten, maar muziekteksten en jingles kunnen worden overgeslagen.''"

definition record_mention ::
  "segment \<Rightarrow> string \<Rightarrow> (string \<times> real list) list \<Rightarrow> (string \<times> real list) list" where
  "record_mention seg kp keypoint_times =
     (if str_in (lower kp) (lower (seg_text seg))
      then map (\<lambda>kt. if fst kt = kp then (fst kt, snd kt @ [seg_start seg]) else kt) keypoint_times
      else keypoint_times)"

definition keypoint_times :: "segment list \<Rightarrow> string list \<Rightarrow> (string \<times> real list) list" where
  "keypoint_times all_segments keypoints =
     fold (\<lambda>seg. fold (record_mention seg) keypoints) all_segments
       (fold (\<lambda>kp. dict_set kp []) keypoints [])"

section \<open>Invariant of the merge loop and sample inputs\<close>

text \<open>
  The inner loop of \<open>merge_overlapping_phrases\<close> keeps \<open>best_merge\<close> equal to the phrase
  it started from or to a merged phrase of more than two words, and never lowers
  \<open>best_merge_length\<close> below the length of the phrase.
\<close>

definition merge_inv :: "string \<Rightarrow> string list \<Rightarrow> string \<times> nat \<times> nat list \<Rightarrow> bool" where
  "merge_inv phrase phrase_words st =
     ((fst st = phrase \<or> 2 < word_count (fst st)) \<and> length phrase_words \<le> fst (snd st))"

text \<open>
  Sample inputs for the filter: 21 candidates of which two overlap in the middle, and 22
  candidates of which one is nested in another. All of them pass the stopword test.
\<close>

definition merging_candidates :: "rat candidate list" where
  "merging_candidates =
     [Cand (Some ''de het een huis boom fiets van'') 1,
      Cand (Some ''op huis boom fiets in met als'') 1,
      Cand (Some ''punt 1 einde'') 1,
      Cand (Some ''punt 2 einde'') 1,
      Cand (Some ''punt 3 einde'') 1,
      Cand (Some ''punt 4 einde'') 1,
      Cand (Some ''punt 5 einde'') 1,
      Cand (Some ''punt 6 einde'') 1,
      Cand (Some ''punt 7 einde'') 1,
      Cand (Some ''punt 8 einde'') 1,
      Cand (Some ''punt 9 einde'') 1,
      Cand (Some ''punt 10 einde'') 1,
      Cand (Some ''punt 11 einde'') 1,
      Cand (Some ''punt 12 einde'') 1,
      Cand (Some ''punt 13 einde'') 1,
      Cand (Some ''punt 14 einde'') 1,
      Cand (Some ''punt 15 einde'') 1,
      Cand (Some ''punt 16 einde'') 1,
      Cand (Some ''punt 17 einde'') 1,
      Cand (Some ''punt 18 einde'') 1,
      Cand (Some ''punt 19 einde'') 1]"

definition merging_stopwords :: "string set" where
  "merging_stopwords = {''de'', ''het'', ''een'', ''van'', ''op'', ''in'', ''met'', ''als''}"

definition nested_candidates :: "rat candidate list" where
  "nested_candidates =
     [Cand (Some ''nieuwe corona maatregelen nu'') 1,
      Cand (Some ''corona maatregelen nu'') 1,
      Cand (Some ''corona maat'') 1,
      Cand (Some ''punt 1 einde'') 1,
      Cand (Some ''punt 2 einde'') 1,
      Cand (Some ''punt 3 einde'') 1,
      Cand (Some ''punt 4 einde'') 1,
      Cand (Some ''punt 5 einde'') 1,
      Cand (Some ''punt 6 einde'') 1,
      Cand (Some ''punt 7 einde'') 1,
      Cand (Some ''punt 8 einde'') 1,
      Cand (Some ''punt 9 einde'') 1,
      Cand (Some ''punt 10 einde'') 1,
      Cand (Some ''punt 11 einde'') 1,
      Cand (Some ''punt 12 einde'') 1,
      Cand (Some ''punt 13 einde'') 1,
      Cand (Some ''punt 14 einde'') 1,
      Cand (Some ''punt 15 einde'') 1,
      Cand (Some ''punt 16 einde'') 1,
      Cand (Some ''punt 17 einde'') 1,
      Cand (Some ''punt 18 einde'') 1,
      Cand (Some ''punt 19 einde'') 1]"

definition nested_stopwords :: "string set" where
  "nested_stopwords = {''de'', ''het'', ''een''}"

text \<open>Two segments as the transcriber may return them, the first one the leaked prompt.\<close>

definition leaked_segments :: "segment list" where
  "leaked_segments =
     [\<lparr>seg_start = 12, seg_end = 20, seg_text = whisper_prompt\<rparr>,
      \<lparr>seg_start = 30, seg_end = 34, seg_text = ''het nieuws van vandaag over de economie''\<rparr>]"

section \<open>Evaluation of the character tests\<close>

text \<open>The two character functions on the bits of a character, for evaluation.\<close>

lemma is_space_code [code]:
  "is_space (Char b0 b1 b2 b3 b4 b5 b6 b7) =
     (\<not> b7 \<and> \<not> b6 \<and>
      ((\<not> b5 \<and> \<not> b4 \<and> b3 \<and> (b0 \<or> b1 \<or> b2) \<and> \<not> (b1 \<and> b2)) \<or>
       (\<not> b5 \<and> b4 \<and> b3 \<and> b2) \<or>
       (b5 \<and> \<not> b4 \<and> \<not> b3 \<and> \<not> b2 \<and> \<not> b1 \<and> \<not> b0)))"
  by (cases b0; cases b1; cases b2; cases b3; cases b4; cases b5; cases b6; cases b7;
      simp add: is_space_def)

lemma lower_char_code [code]:
  "lower_char (Char b0 b1 b2 b3 b4 b5 b6 b7) =
     (if \<not> b7 \<and> b6 \<and> \<not> b5 \<and> (b0 \<or> b1 \<or> b2 \<or> b3 \<or> b4) \<and>
         \<not> (b4 \<and> b3 \<and> (b2 \<or> (b1 \<and> b0)))
      then Char b0 b1 b2 b3 b4 True b6 b7 else Char b0 b1 b2 b3 b4 b5 b6 b7)"
  by (cases b0; cases b1; cases b2; cases b3; cases b4; cases b5; cases b6; cases b7;
      simp add: lower_char_def char_of_def bit_iff_odd)

section \<open>Facts about the string primitives\<close>

text \<open>
  Lower-casing keeps whitespace whitespace, so it commutes with \<open>split\<close> and \<open>strip\<close>;
  stripping does not change the words of a text.
\<close>

lemma is_space_lower_char [simp]: "is_space (lower_char c) = is_space c"
  by (simp add: is_space_def lower_char_def Let_def)

lemma split_aux_lower:
  "split_aux (lower cur) (lower s) = map lower (split_aux cur s)"
proof (induction s arbitrary: cur)
  case Nil
  then show ?case by (simp add: lower_def)
next
  case (Cons c s)
  show ?case
    using Cons.IH [of "[]"] Cons.IH [of "cur @ [c]"] by (auto simp: lower_def)
qed

lemma split_lower: "split (lower s) = map lower (split s)"
  using split_aux_lower [of "[]" s] by (simp add: split_def lower_def)

lemma split_aux_spaces: "\<forall>c \<in> set t. is_space c \<Longrightarrow> split_aux [] t = []"
  by (induction t) auto

lemma split_aux_append_spaces:
  "\<forall>c \<in> set t. is_space c \<Longrightarrow> split_aux cur (s @ t) = split_aux cur s"
proof (induction s arbitrary: cur)
  case Nil
  then show ?case by (cases t) (auto simp: split_aux_spaces)
next
  case (Cons c s)
  then show ?case by simp
qed

lemma split_aux_dropWhile: "split_aux [] (dropWhile is_space s) = split_aux [] s"
  by (induction s) auto

lemma rstrip_decomp: "\<exists>t. s = rstrip s @ t \<and> (\<forall>c \<in> set t. is_space c)"
proof -
  have "rev s = takeWhile is_space (rev s) @ dropWhile is_space (rev s)" by simp
  then have "s = rev (dropWhile is_space (rev s)) @ rev (takeWhile is_space (rev s))"
    by (metis rev_append rev_rev_ident)
  moreover have "\<forall>c \<in> set (rev (takeWhile is_space (rev s))). is_space c"
    by (auto dest: set_takeWhileD)
  ultimately show ?thesis unfolding rstrip_def by blast
qed

lemma split_rstrip: "split (rstrip s) = split s"
proof -
  obtain t where t: "s = rstrip s @ t" "\<forall>c \<in> set t. is_space c"
    using rstrip_decomp by blast
  have "split_aux [] (rstrip s @ t) = split_aux [] (rstrip s)"
    using t(2) by (rule split_aux_append_spaces)
  with t(1) show ?thesis by (simp add: split_def)
qed

lemma split_strip: "split (strip s) = split s"
  by (simp add: strip_def split_def split_aux_dropWhile split_rstrip [unfolded split_def])

lemma word_count_normalized: "length (split (strip (lower p))) = word_count p"
  by (simp add: split_strip split_lower word_count_def)

text \<open>\<open>str_in\<close> is the contiguous-sublist relation of the list library.\<close>

lemma str_in_sublist: "str_in needle hay = sublist needle hay"
  by (induction hay) (auto simp: sublist_Cons_right)

text \<open>
  A word without a blank that occurs in a text built with blanks occurs in one of the
  parts: across a blank, in a \<open>join\<close>, after \<open>replace("  ", " ")\<close> and after \<open>strip\<close>.
\<close>

lemma prefix_blank_free:
  "CHR '' '' \<notin> set w \<Longrightarrow> prefix w (CHR '' '' # b) \<Longrightarrow> w = []"
  by (cases w) auto

lemma sublist_across_blank:
  assumes "CHR '' '' \<notin> set w" and "sublist w (a @ CHR '' '' # b)"
  shows "sublist w a \<or> sublist w b"
proof -
  from assms(2) consider "sublist w a" | "sublist w (CHR '' '' # b)"
    | xs1 xs2 where "w = xs1 @ xs2" "suffix xs1 a" "prefix xs2 (CHR '' '' # b)"
    by (auto simp: sublist_append)
  then show ?thesis
  proof cases
    case 1
    then show ?thesis by simp
  next
    case 2
    then have "prefix w (CHR '' '' # b) \<or> sublist w b" by (simp add: sublist_Cons_right)
    then show ?thesis using prefix_blank_free [OF assms(1)] by auto
  next
    case 3
    from 3(1) assms(1) have "CHR '' '' \<notin> set xs2" by simp
    with 3(3) have "xs2 = []" using prefix_blank_free by blast
    with 3(1,2) show ?thesis by auto
  qed
qed

lemma sublist_join:
  "CHR '' '' \<notin> set w \<Longrightarrow> w \<noteq> [] \<Longrightarrow> sublist w (join '' '' ps) \<Longrightarrow> \<exists>p \<in> set ps. sublist w p"
proof (induction "'' ''" ps rule: join.induct)
  case 1
  then show ?case by simp
next
  case (2 p)
  then show ?case by simp
next
  case (3 p q ps)
  from 3(4) have "sublist w (p @ CHR '' '' # join '' '' (q # ps))" by simp
  with 3(2) have "sublist w p \<or> sublist w (join '' '' (q # ps))"
    by (rule sublist_across_blank)
  with 3 show ?case by auto
qed

lemma replace_double_space_prefix:
  "CHR '' '' \<notin> set v \<Longrightarrow> prefix v (replace_double_space s) \<Longrightarrow> prefix v s"
proof (induction s arbitrary: v rule: replace_double_space.induct)
  case (1 c1 c2 cs)
  show ?case
  proof (cases "c1 = CHR '' '' \<and> c2 = CHR '' ''")
    case True
    with 1(3,4) have "v = []" by (auto dest: prefix_blank_free)
    then show ?thesis by simp
  next
    case False
    show ?thesis
    proof (cases v)
      case Nil
      then show ?thesis by simp
    next
      case (Cons x v')
      with False 1(3,4) have "x = c1" "prefix v' (replace_double_space (c2 # cs))" "CHR '' '' \<notin> set v'"
        by auto
      with 1(2) [OF False] Cons show ?thesis by auto
    qed
  qed
qed simp_all

lemma replace_double_space_sublist:
  "CHR '' '' \<notin> set w \<Longrightarrow> w \<noteq> [] \<Longrightarrow> sublist w (replace_double_space s) \<Longrightarrow> sublist w s"
proof (induction s rule: replace_double_space.induct)
  case (1 c1 c2 cs)
  show ?case
  proof (cases "c1 = CHR '' '' \<and> c2 = CHR '' ''")
    case True
    with 1(5) have "prefix w (CHR '' '' # replace_double_space cs) \<or> sublist w (replace_double_space cs)"
      by (simp add: sublist_Cons_right)
    with 1(3,4) have "sublist w (replace_double_space cs)"
      by (auto dest: prefix_blank_free)
    with 1(1) [OF True 1(3,4)] have "sublist w cs" by simp
    then show ?thesis by (simp add: sublist_Cons_right)
  next
    case False
    with 1(5) have "prefix w (c1 # replace_double_space (c2 # cs)) \<or> sublist w (replace_double_space (c2 # cs))"
      by (simp add: sublist_Cons_right)
    then show ?thesis
    proof
      assume p: "prefix w (c1 # replace_double_space (c2 # cs))"
      from 1(4) obtain x w' where w: "w = x # w'" by (cases w) auto
      with p 1(3) have "x = c1" "prefix w' (replace_double_space (c2 # cs))" "CHR '' '' \<notin> set w'"
        by auto
      then have "prefix w' (c2 # cs)" using replace_double_space_prefix by blast
      with w \<open>x = c1\<close> have "prefix w (c1 # c2 # cs)" by simp
      then show ?thesis by (rule prefix_imp_sublist)
    next
      assume "sublist w (replace_double_space (c2 # cs))"
      with 1(2) [OF False 1(3,4)] have "sublist w (c2 # cs)" by simp
      then show ?thesis by (simp add: sublist_Cons_right)
    qed
  qed
qed simp_all

lemma sublist_strip: "sublist (strip s) s"
proof -
  have "sublist (rstrip s) s"
    unfolding rstrip_def by (simp add: sublist_rev_left)
  moreover have "sublist (strip s) (rstrip s)"
    unfolding strip_def by simp
  ultimately show ?thesis by (rule sublist_order.order.trans [rotated])
qed

lemma lower_strip: "lower (strip s) = strip (lower s)"
proof -
  have "is_space \<circ> lower_char = is_space" by (rule ext) simp
  then show ?thesis
    by (simp add: strip_def rstrip_def lower_def dropWhile_map rev_map)
qed

section \<open>The Deduplicator on concrete keypoints\<close>

text \<open>
  Claim C1, as stated, fails: with \<open>"corona maatregelen"\<close> first, the entry already in
  the dictionary contributes its timestamps first (\<open>existing_times + timestamps\<close>), so
  the merged list is not \<open>[5.0, 40.0, 5.0]\<close>.
\<close>

theorem C1_dedup_scenario5_counterexample:
  "deduplicate_phrases
     [(''corona maatregelen'', [5::real]), (''de nieuwe corona maatregelen'', [5, 40])]
   \<noteq> [(''de nieuwe corona maatregelen'', [5, 40, 5])]"
  by code_simp

text \<open>
  Claim C1, amended: the two keypoints, in the order of the claim, deduplicate into
  the one keypoint \<open>"de nieuwe corona maatregelen"\<close> with timestamps
  \<open>[5.0, 5.0, 40.0]\<close>; the list \<open>[5.0, 40.0, 5.0]\<close> is what the opposite input order
  gives.
\<close>

theorem C1_dedup_scenario5:
  "deduplicate_phrases
     [(''corona maatregelen'', [5::real]), (''de nieuwe corona maatregelen'', [5, 40])]
   = [(''de nieuwe corona maatregelen'', [5, 5, 40])]
   \<and> deduplicate_phrases
     [(''de nieuwe corona maatregelen'', [5::real, 40]), (''corona maatregelen'', [5])]
   = [(''de nieuwe corona maatregelen'', [5, 40, 5])]"
  by code_simp

text \<open>
  Claim C2 (idempotence of the Deduplicator) fails on the code. A new phrase is merged
  into the first dictionary entry it contains or is contained in, and the loop stops
  there (\<open>break\<close>): \<open>"corona maatregelen"\<close> replaces \<open>"corona"\<close> and is never compared
  with \<open>"maatregelen"\<close>, which stays in the output. A second run merges the two.
\<close>

theorem C2_dedup_second_run_differs:
  "deduplicate_phrases
     [(''corona'', [1::real, 3]), (''maatregelen'', [2, 3]), (''corona maatregelen'', [3])]
   = [(''corona maatregelen'', [1, 3, 3]), (''maatregelen'', [2, 3])]
   \<and> deduplicate_phrases
     (deduplicate_phrases
       [(''corona'', [1::real, 3]), (''maatregelen'', [2, 3]), (''corona maatregelen'', [3])])
   = [(''corona maatregelen'', [1, 3, 3, 2, 3])]"
  by code_simp

section \<open>The stopword ceiling\<close>

text \<open>
  What the test of one candidate guarantees, and how the result of
  \<open>filter_phrases_robust\<close> relates to the list of the phrases that pass it.
\<close>

lemma keeps_phrase_ceiling:
  assumes "keeps_phrase stopwords p"
  shows "(word_count p = 2 \<longrightarrow> stopword_count stopwords (split p) \<le> 1) \<and>
         (word_count p = 3 \<longrightarrow> stopword_count stopwords (split p) \<le> 2) \<and>
         (word_count p = 4 \<longrightarrow> stopword_count stopwords (split p) \<le> 3) \<and>
         (word_count p = 5 \<longrightarrow> stopword_count stopwords (split p) \<le> 4) \<and>
         (word_count p \<ge> 6 \<longrightarrow> stopword_count stopwords (split p) \<le> 5) \<and>
         stopword_count stopwords (split p) < word_count p \<and>
         (word_count p = 2 \<and> stopword_count stopwords (split p) = 1 \<longrightarrow>
            (\<forall>w \<in> set (split p). w \<notin> stopwords \<longrightarrow> 3 \<le> length w))"
proof -
  let ?ws = "split p"
  let ?c = "stopword_count stopwords ?ws"
  let ?n = "length ?ws"
  from assms have pos: "0 < ?n"
    and ratio: "(of_nat ?c :: rat) / of_nat ?n \<le> max_allowed ?n"
    and notall: "?c \<noteq> ?n"
    and short: "?n = 2 \<and> ?c = 1 \<longrightarrow> 3 \<le> length (first_non_stopword stopwords ?ws)"
    by (simp_all add: keeps_phrase_def Let_def split: if_splits)
  have le: "?c \<le> ?n" by (simp add: stopword_count_def)
  have c6: "?n \<ge> 6 \<longrightarrow> ?c \<le> 5"
  proof
    assume n: "?n \<ge> 6"
    with ratio have "(of_nat ?c :: rat) / of_nat ?n \<le> 5 / of_nat ?n"
      by (simp add: max_allowed_def)
    with pos have "(of_nat ?c :: rat) \<le> 5" by (simp add: divide_le_cancel)
    then show "?c \<le> 5" by linarith
  qed
  have c5: "?n = 5 \<longrightarrow> ?c \<le> 4" using ratio le notall by (auto simp: max_allowed_def)
  have c4: "?n = 4 \<longrightarrow> ?c \<le> 3" using ratio le notall by (auto simp: max_allowed_def)
  have c3: "?n = 3 \<longrightarrow> ?c \<le> 2" using ratio le notall by (auto simp: max_allowed_def)
  have c2: "?n = 2 \<longrightarrow> ?c \<le> 1" using ratio le notall by (auto simp: max_allowed_def)
  have w2: "?n = 2 \<and> ?c = 1 \<longrightarrow> (\<forall>w \<in> set ?ws. w \<notin> stopwords \<longrightarrow> 3 \<le> length w)"
  proof (intro impI ballI)
    fix w
    assume h: "?n = 2 \<and> ?c = 1" and w: "w \<in> set ?ws" and ns: "w \<notin> stopwords"
    from h obtain a b where ab: "?ws = [a, b]"
      by (metis (no_types, lifting) One_nat_def Suc_1 length_0_conv length_Suc_conv)
    from h ab have one: "(a \<in> stopwords \<and> b \<notin> stopwords) \<or> (a \<notin> stopwords \<and> b \<in> stopwords)"
      by (auto simp: stopword_count_def split: if_splits)
    with ab w ns have "first_non_stopword stopwords ?ws = w"
      by (auto simp: first_non_stopword_def)
    with short h show "3 \<le> length w" by simp
  qed
  from c2 c3 c4 c5 c6 le notall w2 show ?thesis
    by (simp add: word_count_def)
qed

lemma filter_phrases_robust_many:
  assumes "stopwords \<noteq> {}" and "20 < length (stopword_filtered phrases stopwords)"
  shows "filter_phrases_robust phrases stopwords =
         remove_true_subphrases (merge_overlapping_phrases
           (balance_phrases (stopword_filtered phrases stopwords)))"
proof -
  from assms(2) have "phrases \<noteq> []"
    by (auto simp: stopword_filtered_def List.map_filter_simps)
  with assms show ?thesis by (simp add: filter_phrases_robust_def Let_def)
qed

lemma filter_phrases_robust_few:
  assumes "length (stopword_filtered phrases stopwords) \<le> 20"
    and "p \<in> set (filter_phrases_robust phrases stopwords)"
  shows "p \<in> set (stopword_filtered phrases stopwords)"
  using assms by (auto simp: filter_phrases_robust_def Let_def split: if_splits)

text \<open>The sample inputs, evaluated.\<close>

lemma merging_survivors:
  "stopword_filtered merging_candidates merging_stopwords =
     [''de het een huis boom fiets van'',
      ''op huis boom fiets in met als'',
      ''punt 1 einde'',
      ''punt 2 einde'',
      ''punt 3 einde'',
      ''punt 4 einde'',
      ''punt 5 einde'',
      ''punt 6 einde'',
      ''punt 7 einde'',
      ''punt 8 einde'',
      ''punt 9 einde'',
      ''punt 10 einde'',
      ''punt 11 einde'',
      ''punt 12 einde'',
      ''punt 13 einde'',
      ''punt 14 einde'',
      ''punt 15 einde'',
      ''punt 16 einde'',
      ''punt 17 einde'',
      ''punt 18 einde'',
      ''punt 19 einde'']"
  by code_simp

lemma merging_result:
  "filter_phrases_robust merging_candidates merging_stopwords =
     [''de het een huis boom fiets in met als'',
      ''punt 1 einde'',
      ''punt 2 einde'',
      ''punt 3 einde'',
      ''punt 4 einde'',
      ''punt 5 einde'',
      ''punt 6 einde'',
      ''punt 7 einde'',
      ''punt 8 einde'',
      ''punt 9 einde'',
      ''punt 10 einde'',
      ''punt 11 einde'',
      ''punt 12 einde'',
      ''punt 13 einde'',
      ''punt 14 einde'',
      ''punt 15 einde'',
      ''punt 16 einde'',
      ''punt 17 einde'',
      ''punt 18 einde'',
      ''punt 19 einde'']"
  by code_simp

lemma nested_survivors:
  "stopword_filtered nested_candidates nested_stopwords =
     [''nieuwe corona maatregelen nu'',
      ''corona maatregelen nu'',
      ''corona maat'',
      ''punt 1 einde'',
      ''punt 2 einde'',
      ''punt 3 einde'',
      ''punt 4 einde'',
      ''punt 5 einde'',
      ''punt 6 einde'',
      ''punt 7 einde'',
      ''punt 8 einde'',
      ''punt 9 einde'',
      ''punt 10 einde'',
      ''punt 11 einde'',
      ''punt 12 einde'',
      ''punt 13 einde'',
      ''punt 14 einde'',
      ''punt 15 einde'',
      ''punt 16 einde'',
      ''punt 17 einde'',
      ''punt 18 einde'',
      ''punt 19 einde'']"
  by code_simp

lemma nested_result:
  "filter_phrases_robust nested_candidates nested_stopwords =
     [''nieuwe corona maatregelen nu'',
      ''punt 1 einde'',
      ''punt 2 einde'',
      ''punt 3 einde'',
      ''punt 4 einde'',
      ''punt 5 einde'',
      ''punt 6 einde'',
      ''punt 7 einde'',
      ''punt 8 einde'',
      ''punt 9 einde'',
      ''punt 10 einde'',
      ''punt 11 einde'',
      ''punt 12 einde'',
      ''punt 13 einde'',
      ''punt 14 einde'',
      ''punt 15 einde'',
      ''punt 16 einde'',
      ''punt 17 einde'',
      ''punt 18 einde'',
      ''punt 19 einde'',
      ''corona maat'']"
  by code_simp

text \<open>
  Claim C4, as stated, fails: among the 21 candidates two 7-word phrases with 4
  stopwords each overlap in \<open>"huis boom fiets"\<close>, and the phrase merged from them, which
  is returned, has 9 words of which 6 are stopwords. Merged phrases are not tested
  against the ceiling.
\<close>

theorem C4_counterexample:
  "''de het een huis boom fiets in met als''
     \<in> set (filter_phrases_robust merging_candidates merging_stopwords)
   \<and> word_count ''de het een huis boom fiets in met als'' = 9
   \<and> stopword_count merging_stopwords (split ''de het een huis boom fiets in met als'') = 6"
proof -
  have "''de het een huis boom fiets in met als''
     \<in> set (filter_phrases_robust merging_candidates merging_stopwords)"
    by (simp add: merging_result)
  moreover have "word_count ''de het een huis boom fiets in met als'' = 9
   \<and> stopword_count merging_stopwords (split ''de het een huis boom fiets in met als'') = 6"
    by code_simp
  ultimately show ?thesis by blast
qed

text \<open>
  Claim C4, amended: every phrase that passes the per-candidate stopword test, and so
  every phrase returned when at most 20 phrases pass it, has at most 1, 2, 3, 4
  stopwords when it has 2, 3, 4, 5 words and at most 5 when it has 6 words or more, is
  not made of stopwords only, and, when it has 2 words of which exactly one is a
  stopword, the other word has at least 3 characters.
\<close>

theorem C4_stopword_ceiling:
  assumes "p \<in> set (stopword_filtered phrases stopwords) \<or>
           (length (stopword_filtered phrases stopwords) \<le> 20 \<and>
            p \<in> set (filter_phrases_robust phrases stopwords))"
  shows "(word_count p = 2 \<longrightarrow> stopword_count stopwords (split p) \<le> 1) \<and>
         (word_count p = 3 \<longrightarrow> stopword_count stopwords (split p) \<le> 2) \<and>
         (word_count p = 4 \<longrightarrow> stopword_count stopwords (split p) \<le> 3) \<and>
         (word_count p = 5 \<longrightarrow> stopword_count stopwords (split p) \<le> 4) \<and>
         (word_count p \<ge> 6 \<longrightarrow> stopword_count stopwords (split p) \<le> 5) \<and>
         stopword_count stopwords (split p) < word_count p \<and>
         (word_count p = 2 \<and> stopword_count stopwords (split p) = 1 \<longrightarrow>
            (\<forall>w \<in> set (split p). w \<notin> stopwords \<longrightarrow> 3 \<le> length w))"
proof -
  from assms have "p \<in> set (stopword_filtered phrases stopwords)"
    using filter_phrases_robust_few by blast
  then have "keeps_phrase stopwords p" by (simp add: stopword_filtered_def)
  then show ?thesis by (rule keeps_phrase_ceiling)
qed

text \<open>Claim C4, amended, on a 3-word phrase with one stopword.\<close>

theorem C4_stopword_ceiling_witness:
  "''de nieuwe maatregelen'' \<in> set (filter_phrases_robust
       [Cand (Some ''de nieuwe maatregelen'') (1::rat), Cand (Some ''de het een'') 1]
       {''de'', ''het'', ''een''})
   \<and> word_count ''de nieuwe maatregelen'' = 3
   \<and> stopword_count {''de'', ''het'', ''een''} (split ''de nieuwe maatregelen'') \<le> 2
   \<and> stopword_count {''de'', ''het'', ''een''} (split ''de nieuwe maatregelen'')
       < word_count ''de nieuwe maatregelen''"
proof -
  have h: "length (stopword_filtered
       [Cand (Some ''de nieuwe maatregelen'') (1::rat), Cand (Some ''de het een'') 1]
       {''de'', ''het'', ''een''}) \<le> 20
     \<and> ''de nieuwe maatregelen'' \<in> set (filter_phrases_robust
       [Cand (Some ''de nieuwe maatregelen'') (1::rat), Cand (Some ''de het een'') 1]
       {''de'', ''het'', ''een''})"
    by code_simp
  have w: "word_count ''de nieuwe maatregelen'' = 3" by code_simp
  from C4_stopword_ceiling [OF disjI2, OF h] h w show ?thesis by simp
qed

section \<open>No nested phrases\<close>

lemma not_subphrase_self: "\<not> is_subphrase_of p p"
  by (simp add: is_subphrase_of_def Let_def)

lemma subphrase_fewer_words: "is_subphrase_of p q \<Longrightarrow> word_count p < word_count q"
  by (simp add: is_subphrase_of_def Let_def word_count_normalized)

lemma subphrase_loop_nested_free:
  assumes "\<forall>p \<in> set acc. \<forall>q \<in> set acc. \<not> is_subphrase_of p q"
    and "\<forall>a \<in> set acc. \<forall>x \<in> set xs. word_count x \<le> word_count a"
    and "sorted (map (\<lambda>x. - int (word_count x)) xs)"
  shows "\<forall>p \<in> set (foldl subphrase_step acc xs).
           \<forall>q \<in> set (foldl subphrase_step acc xs). \<not> is_subphrase_of p q"
  using assms
proof (induction xs arbitrary: acc)
  case Nil
  then show ?case by simp
next
  case (Cons x xs)
  let ?acc = "subphrase_step acc x"
  have later: "\<forall>y \<in> set xs. word_count y \<le> word_count x"
    using Cons.prems(3) by auto
  have a1: "\<forall>p \<in> set ?acc. \<forall>q \<in> set ?acc. \<not> is_subphrase_of p q"
  proof (cases "list_ex (is_subphrase_of x) acc")
    case True
    then show ?thesis using Cons.prems(1) by (simp add: subphrase_step_def)
  next
    case False
    then have nx: "\<forall>a \<in> set acc. \<not> is_subphrase_of x a"
      by (simp add: list_ex_iff)
    have xn: "\<forall>a \<in> set acc. \<not> is_subphrase_of a x"
      using Cons.prems(2) subphrase_fewer_words by fastforce
    from False show ?thesis
      using Cons.prems(1) nx xn not_subphrase_self by (auto simp: subphrase_step_def)
  qed
  have a2: "\<forall>a \<in> set ?acc. \<forall>y \<in> set xs. word_count y \<le> word_count a"
    using Cons.prems(2) later by (auto simp: subphrase_step_def)
  have a3: "sorted (map (\<lambda>x. - int (word_count x)) xs)"
    using Cons.prems(3) by simp
  from Cons.IH [OF a1 a2 a3] show ?case by simp
qed

lemma remove_true_subphrases_nested_free:
  "p \<in> set (remove_true_subphrases phrases) \<Longrightarrow> q \<in> set (remove_true_subphrases phrases)
   \<Longrightarrow> \<not> is_subphrase_of p q"
proof (cases "length phrases \<le> 1")
  case True
  assume p: "p \<in> set (remove_true_subphrases phrases)"
    and q: "q \<in> set (remove_true_subphrases phrases)"
  from True have "phrases = [] \<or> (\<exists>x. phrases = [x])"
    by (cases phrases) auto
  with p q True have "p = q" by (auto simp: remove_true_subphrases_def)
  then show ?thesis by (simp add: not_subphrase_self)
next
  case False
  assume p: "p \<in> set (remove_true_subphrases phrases)"
    and q: "q \<in> set (remove_true_subphrases phrases)"
  have "sorted (map (\<lambda>x. - int (word_count x)) (sorted_desc word_count phrases))"
    by (simp add: sorted_desc_def)
  then have "\<forall>p \<in> set (foldl subphrase_step [] (sorted_desc word_count phrases)).
           \<forall>q \<in> set (foldl subphrase_step [] (sorted_desc word_count phrases)). \<not> is_subphrase_of p q"
    by (intro subphrase_loop_nested_free) simp_all
  with p q False show ?thesis by (simp add: remove_true_subphrases_def)
qed

text \<open>
  Claim C3, as stated, fails. With two candidates the post-processing does not run
  (it is reserved to more than 20 surviving phrases) and a phrase is returned together
  with a longer phrase that contains it. With the 22 candidates it runs, but it removes
  a phrase only when its words, delimited by blanks, occur in a phrase of more words:
  \<open>"corona maat"\<close> stays beside \<open>"nieuwe corona maatregelen nu"\<close>.
\<close>

theorem C3_counterexample:
  "filter_phrases_robust
     [Cand (Some ''corona maatregelen'') (1::rat), Cand (Some ''nieuwe corona maatregelen'') 1]
     {''de'', ''het'', ''een''}
   = [''corona maatregelen'', ''nieuwe corona maatregelen'']
   \<and> str_in (normalize_phrase ''corona maatregelen'') (normalize_phrase ''nieuwe corona maatregelen'')
   \<and> normalize_phrase ''corona maatregelen'' \<noteq> normalize_phrase ''nieuwe corona maatregelen''
   \<and> 20 < length (stopword_filtered nested_candidates nested_stopwords)
   \<and> ''corona maat'' \<in> set (filter_phrases_robust nested_candidates nested_stopwords)
   \<and> ''nieuwe corona maatregelen nu'' \<in> set (filter_phrases_robust nested_candidates nested_stopwords)
   \<and> str_in (normalize_phrase ''corona maat'') (normalize_phrase ''nieuwe corona maatregelen nu'')
   \<and> normalize_phrase ''corona maat'' \<noteq> normalize_phrase ''nieuwe corona maatregelen nu''"
proof -
  have "filter_phrases_robust
     [Cand (Some ''corona maatregelen'') (1::rat), Cand (Some ''nieuwe corona maatregelen'') 1]
     {''de'', ''het'', ''een''}
   = [''corona maatregelen'', ''nieuwe corona maatregelen'']
   \<and> str_in (normalize_phrase ''corona maatregelen'') (normalize_phrase ''nieuwe corona maatregelen'')
   \<and> normalize_phrase ''corona maatregelen'' \<noteq> normalize_phrase ''nieuwe corona maatregelen''
   \<and> str_in (normalize_phrase ''corona maat'') (normalize_phrase ''nieuwe corona maatregelen nu'')
   \<and> normalize_phrase ''corona maat'' \<noteq> normalize_phrase ''nieuwe corona maatregelen nu''"
    by code_simp
  moreover have "20 < length (stopword_filtered nested_candidates nested_stopwords)"
    by (simp add: nested_survivors)
  moreover have "''corona maat'' \<in> set (filter_phrases_robust nested_candidates nested_stopwords)
    \<and> ''nieuwe corona maatregelen nu'' \<in> set (filter_phrases_robust nested_candidates nested_stopwords)"
    by (simp add: nested_result)
  ultimately show ?thesis by blast
qed

text \<open>
  Claim C3, amended: whenever more than 20 phrases pass the per-candidate stopword
  test, no returned phrase \<open>p\<close> is a true sub-phrase of a returned phrase \<open>q\<close>, that is,
  \<open>q\<close> does not both have more words than \<open>p\<close> and contain the lower-cased, stripped
  text of \<open>p\<close> as a run of whole words (\<open>' ' + p + ' '\<close> inside \<open>' ' + q + ' '\<close>).
\<close>

theorem C3_no_nested_phrases_when_many:
  assumes "20 < length (stopword_filtered phrases stopwords)"
    and "p \<in> set (filter_phrases_robust phrases stopwords)"
    and "q \<in> set (filter_phrases_robust phrases stopwords)"
  shows "\<not> is_subphrase_of p q"
proof -
  from assms(2) have "stopwords \<noteq> {}"
    by (auto simp: filter_phrases_robust_def)
  from filter_phrases_robust_many [OF this assms(1)] assms(2,3)
  show ?thesis by (simp add: remove_true_subphrases_nested_free)
qed

text \<open>Claim C3, amended, on two phrases returned for the 22 candidates.\<close>

theorem C3_no_nested_phrases_when_many_witness:
  "20 < length (stopword_filtered nested_candidates nested_stopwords)
   \<and> ''punt 1 einde'' \<in> set (filter_phrases_robust nested_candidates nested_stopwords)
   \<and> ''nieuwe corona maatregelen nu'' \<in> set (filter_phrases_robust nested_candidates nested_stopwords)
   \<and> \<not> is_subphrase_of ''punt 1 einde'' ''nieuwe corona maatregelen nu''"
proof -
  have h1: "20 < length (stopword_filtered nested_candidates nested_stopwords)"
    by (simp add: nested_survivors)
  have h2: "''punt 1 einde'' \<in> set (filter_phrases_robust nested_candidates nested_stopwords)"
    by (simp add: nested_result)
  have h3: "''nieuwe corona maatregelen nu'' \<in> set (filter_phrases_robust nested_candidates nested_stopwords)"
    by (simp add: nested_result)
  from C3_no_nested_phrases_when_many [OF h1 h2 h3] h1 h2 h3 show ?thesis by blast
qed

section \<open>The share of two-word phrases\<close>

text \<open>
  The rounded product \<open>n * 0.35\<close> never exceeds 35 percent of \<open>n\<close> (for \<open>n\<close> below
  \<open>2^50\<close>, where the rounding error stays under 1/20).
\<close>

lemma round_to_53_bits_upper:
  assumes "0 < N" and "N < 2 ^ 103"
  shows "round_to_53_bits N \<le> N + 2 ^ 49"
proof (cases "bitlen N \<le> 53")
  case True
  then show ?thesis by (simp add: round_to_53_bits_def)
next
  case False
  define s where "s = nat (bitlen N - 53)"
  define q where "q = N div 2 ^ s"
  define r where "r = N mod 2 ^ s"
  from assms(2) have "bitlen N \<le> 103"
    by (simp add: bitlen_le_iff_power)
  with False have s: "1 \<le> s" "s \<le> 50" by (simp_all add: s_def)
  have split: "N = q * 2 ^ s + r"
    unfolding q_def r_def by (rule div_mult_mod_eq [symmetric])
  have two: "(2::int) ^ s = 2 * 2 ^ (s - 1)"
    using s(1) by (metis One_nat_def Suc_pred' less_eq_Suc_le power_Suc)
  have half: "(2::int) ^ (s - 1) \<le> 2 ^ 49"
    using s(2) by (intro power_increasing) auto
  have "round_to_53_bits N = (if 2 ^ (s - 1) < r \<or> (r = 2 ^ (s - 1) \<and> odd q) then q + 1 else q) * 2 ^ s"
    using False by (simp add: round_to_53_bits_def Let_def s_def q_def r_def)
  also have "\<dots> \<le> N + 2 ^ (s - 1)"
  proof (cases "2 ^ (s - 1) < r \<or> (r = 2 ^ (s - 1) \<and> odd q)")
    case True
    then have "2 ^ (s - 1) \<le> r" by auto
    moreover have "(q + 1) * 2 ^ s = q * 2 ^ s + 2 * 2 ^ (s - 1)"
      using two by (simp add: algebra_simps)
    ultimately show ?thesis using True split by auto
  next
    case False
    have "0 \<le> r" by (simp add: r_def)
    then show ?thesis using False split by auto
  qed
  finally show ?thesis using half by linarith
qed

lemma float_mul_0_35_floor:
  assumes "n < 2 ^ 50"
  shows "float_mul_0_35 n div 2 ^ 54 \<le> (35 * int n) div 100"
proof (cases "n = 0")
  case True
  then show ?thesis by (simp add: float_mul_0_35_def round_to_53_bits_def)
next
  case False
  define N where "N = int n * 6305039478318694"
  define K where "K = (35 * int n) div 100 + 1"
  from False have pos: "0 < N" by (simp add: N_def)
  from assms have "int n < 2 ^ 50"
    by (metis of_nat_less_iff of_nat_numeral of_nat_power)
  then have n50: "int n < 1125899906842624" by simp
  then have "N < 2 ^ 103" by (simp add: N_def)
  with pos have "round_to_53_bits N \<le> N + 2 ^ 49" by (rule round_to_53_bits_upper)
  then have up: "float_mul_0_35 n \<le> N + 562949953421312"
    by (simp add: float_mul_0_35_def N_def)
  define d where "d = (35 * int n) div 100"
  define m where "m = (35 * int n) mod 100"
  have "m < 100" by (simp add: m_def)
  moreover have "d * 100 + m = 35 * int n"
    unfolding d_def m_def by (rule div_mult_mod_eq)
  moreover have "K = d + 1" by (simp add: K_def d_def)
  ultimately have "35 * int n < 100 * K" by linarith
  then have "7 * int n + 1 \<le> 20 * K" by arith
  then have "N + 562949953421312 < K * 18014398509481984"
    unfolding N_def by linarith
  with up have below: "float_mul_0_35 n < K * 18014398509481984" by simp
  define e where "e = float_mul_0_35 n div 18014398509481984"
  define f where "f = float_mul_0_35 n mod 18014398509481984"
  have "0 \<le> f" by (simp add: f_def)
  moreover have "e * 18014398509481984 + f = float_mul_0_35 n"
    unfolding e_def f_def by (rule div_mult_mod_eq)
  ultimately have "e < K" using below by linarith
  then show ?thesis by (simp add: K_def e_def)
qed

text \<open>
  Neither the phrase merger nor the removal of sub-phrases adds a two-word phrase, and
  the merger marks every index as used, so its second loop adds nothing.
\<close>

lemma merge_candidate_inv:
  "merge_inv phrase pw st \<Longrightarrow> merge_inv phrase pw (merge_candidate used i phrase pw jo st)"
  by (auto simp: merge_inv_def merge_candidate_def Let_def split: option.splits)

lemma fold_merge_candidate_inv:
  "merge_inv phrase pw st \<Longrightarrow> merge_inv phrase pw (fold (merge_candidate used i phrase pw) js st)"
proof (induction js arbitrary: st)
  case Nil
  then show ?case by simp
next
  case (Cons jo js)
  from Cons.prems have "merge_inv phrase pw (merge_candidate used i phrase pw jo st)"
    by (rule merge_candidate_inv)
  then show ?case using Cons.IH by simp
qed

lemma merge_phrase_two_words:
  "length (filter (\<lambda>p. word_count p = 2) (fst (merge_phrase S ip st)))
   \<le> length (filter (\<lambda>p. word_count p = 2) (fst st)) + (if word_count (snd ip) = 2 then 1 else 0)"
proof (cases "fst ip \<in> snd st")
  case True
  then show ?thesis by (simp add: merge_phrase_def Let_def)
next
  case False
  let ?pw = "split (strip (lower (snd ip)))"
  let ?res = "fold (merge_candidate (snd st) (fst ip) (snd ip) ?pw) (enumerate 0 S)
                (snd ip, length ?pw, [])"
  have "merge_inv (snd ip) ?pw ?res"
    by (rule fold_merge_candidate_inv) (simp add: merge_inv_def)
  then have "word_count (fst ?res) = 2 \<Longrightarrow> word_count (snd ip) = 2"
    by (auto simp: merge_inv_def)
  moreover have "fst (merge_phrase S ip st) = fst st @ [fst ?res]"
    using False by (simp add: merge_phrase_def Let_def)
  ultimately show ?thesis by auto
qed

lemma fold_merge_phrase_two_words:
  "length (filter (\<lambda>p. word_count p = 2) (fst (fold (merge_phrase S) ips st)))
   \<le> length (filter (\<lambda>p. word_count p = 2) (fst st))
     + length (filter (\<lambda>p. word_count p = 2) (map snd ips))"
proof (induction ips arbitrary: st)
  case Nil
  then show ?case by simp
next
  case (Cons ip ips)
  have "length (filter (\<lambda>p. word_count p = 2) (fst (fold (merge_phrase S) ips (merge_phrase S ip st))))
        \<le> length (filter (\<lambda>p. word_count p = 2) (fst (merge_phrase S ip st)))
          + length (filter (\<lambda>p. word_count p = 2) (map snd ips))"
    by (rule Cons.IH)
  with merge_phrase_two_words [of S ip st] show ?case by auto
qed

lemma merge_phrase_used:
  "snd st \<subseteq> snd (merge_phrase S ip st) \<and> fst ip \<in> snd (merge_phrase S ip st)"
  by (auto simp: merge_phrase_def Let_def)

lemma fold_merge_phrase_used:
  "snd st \<union> fst ` set ips \<subseteq> snd (fold (merge_phrase S) ips st)"
proof (induction ips arbitrary: st)
  case Nil
  then show ?case by simp
next
  case (Cons ip ips)
  have "snd (merge_phrase S ip st) \<union> fst ` set ips
        \<subseteq> snd (fold (merge_phrase S) ips (merge_phrase S ip st))"
    by (rule Cons.IH)
  with merge_phrase_used [of st S ip] show ?case by auto
qed

lemma merge_overlapping_phrases_all_used:
  "1 < length phrases \<Longrightarrow>
   merge_overlapping_phrases phrases =
     fst (fold (merge_phrase (sorted_desc word_count phrases))
            (enumerate 0 (sorted_desc word_count phrases)) ([], {}))"
proof -
  assume len: "1 < length phrases"
  let ?S = "sorted_desc word_count phrases"
  let ?st = "fold (merge_phrase ?S) (enumerate 0 ?S) ([], {})"
  have "fst ` set (enumerate 0 ?S) \<subseteq> snd ?st"
    using fold_merge_phrase_used [of "([], {})" "enumerate 0 ?S" ?S] by simp
  then have "filter (\<lambda>ip. fst ip \<notin> snd ?st \<and> keeps_unused (snd ip)) (enumerate 0 ?S) = []"
    by (auto simp: filter_empty_conv)
  with len show ?thesis by (simp add: merge_overlapping_phrases_def Let_def)
qed

lemma merge_overlapping_phrases_two_words:
  "length (filter (\<lambda>p. word_count p = 2) (merge_overlapping_phrases phrases))
   \<le> length (filter (\<lambda>p. word_count p = 2) phrases)"
proof (cases "1 < length phrases")
  case False
  then show ?thesis by (simp add: merge_overlapping_phrases_def)
next
  case True
  let ?S = "sorted_desc word_count phrases"
  have "length (filter (\<lambda>p. word_count p = 2) (merge_overlapping_phrases phrases))
        \<le> length (filter (\<lambda>p. word_count p = 2) (map snd (enumerate 0 ?S)))"
    using fold_merge_phrase_two_words [of ?S "enumerate 0 ?S" "([], {})"]
    by (simp add: merge_overlapping_phrases_all_used [OF True])
  also have "\<dots> = length (filter (\<lambda>p. word_count p = 2) ?S)"
    by (simp add: map_snd_enumerate)
  also have "\<dots> = length (filter (\<lambda>p. word_count p = 2) phrases)"
    by (simp add: sorted_desc_def filter_sort)
  finally show ?thesis .
qed

lemma foldl_subphrase_step_count:
  "length (filter P (foldl subphrase_step acc xs)) \<le> length (filter P acc) + length (filter P xs)"
proof (induction xs arbitrary: acc)
  case Nil
  then show ?case by simp
next
  case (Cons x xs)
  have "length (filter P (subphrase_step acc x)) \<le> length (filter P acc) + length (filter P [x])"
    by (simp add: subphrase_step_def)
  with Cons.IH [of "subphrase_step acc x"] show ?case by auto
qed

lemma remove_true_subphrases_two_words:
  "length (filter (\<lambda>p. word_count p = 2) (remove_true_subphrases phrases))
   \<le> length (filter (\<lambda>p. word_count p = 2) phrases)"
proof (cases "length phrases \<le> 1")
  case True
  then show ?thesis by (simp add: remove_true_subphrases_def)
next
  case False
  have "length (filter (\<lambda>p. word_count p = 2)
          (foldl subphrase_step [] (sorted_desc word_count phrases)))
        \<le> length (filter (\<lambda>p. word_count p = 2) (sorted_desc word_count phrases))"
    using foldl_subphrase_step_count [of _ "[]"] by simp
  also have "\<dots> = length (filter (\<lambda>p. word_count p = 2) phrases)"
    by (simp add: sorted_desc_def filter_sort)
  finally show ?thesis using False by (simp add: remove_true_subphrases_def)
qed

lemma take_filter_all: "filter P (take k (filter P xs)) = take k (filter P xs)"
  by (auto simp: filter_id_conv dest: in_set_takeD)

lemma balance_phrases_two_words:
  "int (length (filter (\<lambda>p. word_count p = 2) (balance_phrases fs)))
   \<le> max 0 (float_mul_0_35 (length fs) div 2 ^ 54)"
proof -
  define two where "two = filter (\<lambda>p. word_count p = 2) fs"
  define prod where "prod = float_mul_0_35 (length fs)"
  define T :: int where "T = 2 ^ 54"
  define cut where "cut = (if prod < int (length two) * T then take (nat (prod div T)) two else two)"
  have T: "0 < T" by (simp add: T_def)
  have bal: "balance_phrases fs =
    filter (\<lambda>p. 4 \<le> word_count p) fs @ filter (\<lambda>p. word_count p = 3) fs @ cut"
    by (simp add: balance_phrases_def Let_def cut_def two_def prod_def T_def)
  have "filter (\<lambda>p. word_count p = 2) cut = cut"
    by (simp add: cut_def two_def take_filter_all)
  then have f: "filter (\<lambda>p. word_count p = 2) (balance_phrases fs) = cut"
    by (simp add: bal filter_empty_conv)
  have "int (length cut) \<le> max 0 (prod div T)"
  proof (cases "prod < int (length two) * T")
    case True
    then show ?thesis by (simp add: cut_def)
  next
    case False
    then have "int (length two) * T \<le> prod" by simp
    from zdiv_mono1 [OF this T] T have "int (length two) \<le> prod div T" by simp
    with False show ?thesis by (simp add: cut_def)
  qed
  then show ?thesis by (simp only: f prod_def T_def)
qed

lemma balance_phrases_keeps_long:
  "p \<in> set fs \<Longrightarrow> 3 \<le> word_count p \<Longrightarrow> p \<in> set (balance_phrases fs)"
  by (auto simp: balance_phrases_def Let_def)

text \<open>
  Claim C5, as stated, fails: of the 22 surviving candidates the 3-word phrase
  \<open>"corona maatregelen nu"\<close> is not returned, because the removal of sub-phrases drops
  it in favour of \<open>"nieuwe corona maatregelen nu"\<close>.
\<close>

theorem C5_counterexample:
  "20 < length (stopword_filtered nested_candidates nested_stopwords)
   \<and> ''corona maatregelen nu'' \<in> set (stopword_filtered nested_candidates nested_stopwords)
   \<and> word_count ''corona maatregelen nu'' = 3
   \<and> ''corona maatregelen nu'' \<notin> set (filter_phrases_robust nested_candidates nested_stopwords)"
proof -
  have "word_count ''corona maatregelen nu'' = 3" by code_simp
  then show ?thesis by (simp add: nested_survivors nested_result)
qed

text \<open>
  Claim C5, amended: whenever more than 20 phrases (and fewer than \<open>2^50\<close>) pass the
  per-candidate stopword test, the list that the balancing hands to the phrase merger
  and the removal of sub-phrases contains every surviving phrase of 3 or more words,
  and the 2-word phrases of the list finally returned are at most 35 percent of the
  surviving count.
\<close>

theorem C5_balance_of_many_phrases:
  assumes "stopwords \<noteq> {}"
    and "20 < length (stopword_filtered phrases stopwords)"
    and "length (stopword_filtered phrases stopwords) < 2 ^ 50"
  shows "filter_phrases_robust phrases stopwords =
           remove_true_subphrases (merge_overlapping_phrases
             (balance_phrases (stopword_filtered phrases stopwords)))
         \<and> (\<forall>p \<in> set (stopword_filtered phrases stopwords).
               3 \<le> word_count p \<longrightarrow> p \<in> set (balance_phrases (stopword_filtered phrases stopwords)))
         \<and> 100 * length (filter (\<lambda>p. word_count p = 2) (filter_phrases_robust phrases stopwords))
             \<le> 35 * length (stopword_filtered phrases stopwords)"
proof -
  let ?fs = "stopword_filtered phrases stopwords"
  let ?two = "\<lambda>xs. length (filter (\<lambda>p. word_count p = 2) xs)"
  have eq: "filter_phrases_robust phrases stopwords =
           remove_true_subphrases (merge_overlapping_phrases (balance_phrases ?fs))"
    using assms(1,2) by (rule filter_phrases_robust_many)
  have "?two (filter_phrases_robust phrases stopwords) \<le> ?two (merge_overlapping_phrases (balance_phrases ?fs))"
    unfolding eq by (rule remove_true_subphrases_two_words)
  also have "\<dots> \<le> ?two (balance_phrases ?fs)"
    by (rule merge_overlapping_phrases_two_words)
  finally have "int (?two (filter_phrases_robust phrases stopwords)) \<le> int (?two (balance_phrases ?fs))"
    by simp
  also have "\<dots> \<le> max 0 (float_mul_0_35 (length ?fs) div 2 ^ 54)"
    by (rule balance_phrases_two_words)
  also have "\<dots> \<le> (35 * int (length ?fs)) div 100"
    using float_mul_0_35_floor [OF assms(3)] by simp
  finally have "100 * int (?two (filter_phrases_robust phrases stopwords)) \<le> 35 * int (length ?fs)"
    by linarith
  then have "100 * ?two (filter_phrases_robust phrases stopwords) \<le> 35 * length ?fs"
    by linarith
  with eq show ?thesis by (simp add: balance_phrases_keeps_long)
qed

text \<open>Claim C5, amended, on the 22 candidates.\<close>

theorem C5_balance_of_many_phrases_witness:
  "20 < length (stopword_filtered nested_candidates nested_stopwords)
   \<and> ''corona maatregelen nu''
       \<in> set (balance_phrases (stopword_filtered nested_candidates nested_stopwords))
   \<and> 100 * length (filter (\<lambda>p. word_count p = 2)
                     (filter_phrases_robust nested_candidates nested_stopwords))
       \<le> 35 * length (stopword_filtered nested_candidates nested_stopwords)"
proof -
  have h1: "nested_stopwords \<noteq> {}" by (simp add: nested_stopwords_def)
  have h2: "20 < length (stopword_filtered nested_candidates nested_stopwords)"
    by (simp add: nested_survivors)
  have h3: "length (stopword_filtered nested_candidates nested_stopwords) < 2 ^ 50"
    by (simp add: nested_survivors)
  have p: "''corona maatregelen nu'' \<in> set (stopword_filtered nested_candidates nested_stopwords)"
    by (simp add: nested_survivors)
  have w: "3 \<le> word_count ''corona maatregelen nu''" by code_simp
  from C5_balance_of_many_phrases [OF h1 h2 h3] p w h2 show ?thesis by blast
qed


section \<open>The artifact filter and letter case\<close>

text \<open>
  The check of \<open>utils.py\<close> does not depend on letter case, and the check of
  \<open>phrase_filtering.py\<close> does not either on texts of at most 100 characters, where its
  last test does not apply.
\<close>

lemma lower_char_idem [simp]: "lower_char (lower_char c) = lower_char c"
  by (simp add: lower_char_def Let_def)

lemma lower_idem [simp]: "lower (lower s) = lower s"
  by (simp add: lower_def)

lemma lower_Nil_iff [simp]: "lower s = [] \<longleftrightarrow> s = []"
  by (simp add: lower_def)

lemma length_lower [simp]: "length (lower s) = length s"
  by (simp add: lower_def)

lemma length_strip_lower: "length (strip (lower s)) = length (strip s)"
  using lower_strip [of s] length_lower [of "strip s"] by simp

lemma is_whisper_artifact_utils_case_insensitive:
  "is_whisper_artifact_utils (lower s) = is_whisper_artifact_utils s"
  by (simp add: is_whisper_artifact_utils_def length_strip_lower)

lemma is_whisper_artifact_case_insensitive_short:
  "length s \<le> 100 \<Longrightarrow> is_whisper_artifact (lower s) = is_whisper_artifact s"
  by (simp add: is_whisper_artifact_def long_repeated_sequence_def)

text \<open>
  Claim C7 (the artifact check gives the same verdict on a text and on its lower-case
  form) fails on the code. The text below has 101 characters and no blank; its five
  blocks of 20 letters differ only in case. The check for a 20-character sequence that
  occurs more than twice reads \<open>text\<close>, where every sequence occurs once, and not
  \<open>text_lower\<close>, where the first block occurs five times.
\<close>

theorem C7_artifact_check_depends_on_case:
  "\<not> is_whisper_artifact
       ''abcdefghijklmnopqrstABCDEFGHIJKLMNOPQRSTABCDEFGHIJklmnopqrstabcdefghijKLMNOPQRSTaBcDeFgHiJkLmNoPqRsT!''
   \<and> is_whisper_artifact
       (lower ''abcdefghijklmnopqrstABCDEFGHIJKLMNOPQRSTABCDEFGHIJklmnopqrstabcdefghijKLMNOPQRSTaBcDeFgHiJkLmNoPqRsT!'')
   \<and> lower ''abcdefghijklmnopqrstABCDEFGHIJKLMNOPQRSTABCDEFGHIJklmnopqrstabcdefghijKLMNOPQRSTaBcDeFgHiJkLmNoPqRsT!''
     = ''abcdefghijklmnopqrstabcdefghijklmnopqrstabcdefghijklmnopqrstabcdefghijklmnopqrstabcdefghijklmnopqrst!''"
  by code_simp

section \<open>The phrase merger on the two candidates of Scenario 3\<close>

text \<open>
  Claim C8 (the two candidates merge into one phrase) fails on the code. The shared run
  is found, but \<open>merge_two_phrases\<close> searches for it with a blank on both sides, and in
  the first phrase the run stands at the end, in the second at the start: it answers
  \<open>None\<close>, and both candidates are returned as they came.
\<close>

theorem C8_scenario3_not_merged:
  "find_common_sequence (split ''nieuwe maatregelen voor de economie'')
       (split ''maatregelen voor de economie vandaag'')
     = [''maatregelen'', ''voor'', ''de'', ''economie'']
   \<and> merge_two_phrases ''nieuwe maatregelen voor de economie''
       ''maatregelen voor de economie vandaag''
       [''maatregelen'', ''voor'', ''de'', ''economie''] = None
   \<and> merge_overlapping_phrases
       [''nieuwe maatregelen voor de economie'', ''maatregelen voor de economie vandaag'']
     = [''nieuwe maatregelen voor de economie'', ''maatregelen voor de economie vandaag'']"
  by code_simp

section \<open>The segment merger on the two segments of Scenario 1\<close>

text \<open>
  Claim C9: with threshold 0.5 the two segments merge into the one segment from 0.0 to
  4.0 whose text is the longer of the two texts.
\<close>

theorem C9_scenario1_merged:
  "merge_similar_segments
     [\<lparr>seg_start = 0, seg_end = 2, seg_text = ''het weer wordt morgen zonnig''\<rparr>,
      \<lparr>seg_start = 2, seg_end = 4, seg_text = ''het weer wordt morgen zonnig en warm''\<rparr>]
     (1 / 2) None
   = [\<lparr>seg_start = 0, seg_end = 4, seg_text = ''het weer wordt morgen zonnig en warm''\<rparr>]"
  by code_simp

section \<open>The leaked prompt\<close>

text \<open>
  A text that is not an artifact does not contain the word \<open>"transcriptie"\<close>, and
  neither does a text merged from two or more such texts; the prompt does.
\<close>

lemma indicator_is_artifact:
  assumes "indicator \<in> set whisper_prompt_indicators" and "str_in indicator (strip (lower t))"
    and "t \<noteq> []"
  shows "is_whisper_artifact t"
proof -
  from assms(1,2) have "list_ex (\<lambda>indicator. str_in indicator (strip (lower t))) whisper_prompt_indicators"
    unfolding list_ex_iff by blast
  with assms(3) show ?thesis by (simp add: is_whisper_artifact_def Let_def)
qed

lemma transcriptie_lower: "lower ''transcriptie'' = ''transcriptie''"
  by code_simp

lemma transcriptie_in_prompt: "str_in ''transcriptie'' whisper_prompt"
  by code_simp

lemma prompt_is_artifact: "is_whisper_artifact whisper_prompt"
  by code_simp

lemma clean_text_no_transcriptie:
  assumes "\<not> is_whisper_artifact t"
  shows "\<not> sublist ''transcriptie'' (strip t)"
proof
  assume s: "sublist ''transcriptie'' (strip t)"
  then have "strip t \<noteq> []" by auto
  then have "t \<noteq> []" by (auto simp: strip_def rstrip_def)
  from s have "sublist (lower ''transcriptie'') (lower (strip t))"
    unfolding lower_def by (rule map_mono_sublist)
  then have "str_in ''transcriptie'' (strip (lower t))"
    by (simp add: transcriptie_lower lower_strip str_in_sublist)
  moreover have "''transcriptie'' \<in> set whisper_prompt_indicators"
    by (simp add: whisper_prompt_indicators_def)
  ultimately have "is_whisper_artifact t" using \<open>t \<noteq> []\<close> by (intro indicator_is_artifact)
  with assms show False by simp
qed

lemma longest_text_in: "longest_text best ts \<in> set (best # ts)"
  by (induction ts arbitrary: best) (auto split: if_splits)

lemma merge_text_segments_no_word:
  assumes clean: "\<forall>t \<in> set texts. \<not> sublist w (strip t)"
    and w: "CHR '' '' \<notin> set w" "w \<noteq> []"
    and len: "2 \<le> length texts"
  shows "\<not> sublist w (merge_text_segments texts)"
proof -
  let ?unique = "filter (\<lambda>t. t \<noteq> []) (map strip texts)"
  have uniq: "\<forall>u \<in> set ?unique. \<not> sublist w u"
    using clean by auto
  from len obtain a b rest where texts: "texts = a # b # rest"
    by (cases texts; cases "tl texts") auto
  show ?thesis
  proof (cases ?unique)
    case Nil
    with texts w(2) show ?thesis by (simp add: merge_text_segments_def)
  next
    case (Cons u us)
    note outer = Cons
    show ?thesis
    proof (cases us)
      case Nil
      with outer uniq have "\<not> sublist w u" by simp
      with Nil outer texts show ?thesis by (simp add: merge_text_segments_def)
    next
      case (Cons v vs)
      let ?base = "longest_text u us"
      let ?parts = "?base # filter (\<lambda>t. t \<noteq> ?base \<and> \<not> is_substring_or_similar t ?base) (u # us)"
      have "?base \<in> set (u # us)" by (rule longest_text_in)
      then have parts: "\<forall>p \<in> set ?parts. \<not> sublist w p"
        using uniq outer by auto
      have res: "merge_text_segments texts =
        (if length ?parts = 1 then ?base
         else strip (replace_double_space (join '' '' ?parts)))"
        using texts outer Cons by (simp add: merge_text_segments_def Let_def)
      show ?thesis
      proof (cases "length ?parts = 1")
        case True
        with res parts show ?thesis by simp
      next
        case False
        have "\<not> sublist w (strip (replace_double_space (join '' '' ?parts)))"
        proof
          assume "sublist w (strip (replace_double_space (join '' '' ?parts)))"
          then have "sublist w (replace_double_space (join '' '' ?parts))"
            using sublist_strip sublist_order.order.trans by blast
          then have "sublist w (join '' '' ?parts)"
            using w by (rule replace_double_space_sublist [rotated 2])
          then have "\<exists>p \<in> set ?parts. sublist w p"
            using w by (rule sublist_join [rotated 2])
          with parts show False by blast
        qed
        with res False show ?thesis by simp
      qed
    qed
  qed
qed

lemma merge_group_no_prompt:
  assumes valid: "\<forall>s \<in> set valid. \<not> is_whisper_artifact (seg_text s)"
    and seg1: "snd is1 \<in> set valid"
    and before: "\<forall>s \<in> set (fst st). seg_text s \<noteq> whisper_prompt"
  shows "\<forall>s \<in> set (fst (merge_group thr valid is1 st)). seg_text s \<noteq> whisper_prompt"
proof (cases "fst is1 \<in> snd st")
  case True
  with before show ?thesis by (simp add: merge_group_def Let_def)
next
  case False
  define found where "found = filter (\<lambda>js. fst js \<notin> snd st \<and>
       calculate_text_similarity (seg_text (snd is1)) (seg_text (snd js)) \<ge> thr)
     (enumerate (fst is1 + 1) (drop (fst is1 + 1) valid))"
  define similar where "similar = snd is1 # map snd found"
  have "set found \<subseteq> set (enumerate (fst is1 + 1) (drop (fst is1 + 1) valid))"
    unfolding found_def by (rule filter_is_subset)
  then have "snd ` set found \<subseteq> snd ` set (enumerate (fst is1 + 1) (drop (fst is1 + 1) valid))"
    by (rule image_mono)
  also have "\<dots> = set (drop (fst is1 + 1) valid)"
    by (metis map_snd_enumerate set_map)
  also have "\<dots> \<subseteq> set valid"
    by (rule set_drop_subset)
  finally have sim: "set similar \<subseteq> set valid"
    using seg1 by (auto simp: similar_def)
  have fst_eq: "fst (merge_group thr valid is1 st) =
      fst st @ [if 1 < length similar
                then \<lparr>seg_start = fold min (map seg_start (map snd found)) (seg_start (snd is1)),
                      seg_end = fold max (map seg_end (map snd found)) (seg_end (snd is1)),
                      seg_text = merge_text_segments (map seg_text similar)\<rparr>
                else snd is1]"
    using False by (simp add: merge_group_def Let_def found_def similar_def)
  have single: "seg_text (snd is1) \<noteq> whisper_prompt"
    using valid seg1 prompt_is_artifact by auto
  have merged: "merge_text_segments (map seg_text similar) \<noteq> whisper_prompt"
    if long: "1 < length similar"
  proof
    assume eq: "merge_text_segments (map seg_text similar) = whisper_prompt"
    have "\<forall>s \<in> set similar. \<not> sublist ''transcriptie'' (strip (seg_text s))"
      using sim valid clean_text_no_transcriptie by blast
    then have "\<forall>t \<in> set (map seg_text similar). \<not> sublist ''transcriptie'' (strip t)"
      by simp
    moreover have "2 \<le> length (map seg_text similar)" using long by simp
    ultimately have "\<not> sublist ''transcriptie'' (merge_text_segments (map seg_text similar))"
      by (intro merge_text_segments_no_word) simp_all
    with eq transcriptie_in_prompt show False by (simp add: str_in_sublist)
  qed
  show ?thesis
    unfolding fst_eq using before single merged by auto
qed

lemma fold_merge_group_no_prompt:
  assumes "\<forall>s \<in> set valid. \<not> is_whisper_artifact (seg_text s)"
    and "snd ` set ips \<subseteq> set valid"
    and "\<forall>s \<in> set (fst st). seg_text s \<noteq> whisper_prompt"
  shows "\<forall>s \<in> set (fst (fold (merge_group thr valid) ips st)). seg_text s \<noteq> whisper_prompt"
  using assms(2,3)
proof (induction ips arbitrary: st)
  case Nil
  then show ?case by simp
next
  case (Cons ip ips)
  from Cons.prems(1) have "snd ip \<in> set valid" by simp
  with assms(1) have "\<forall>s \<in> set (fst (merge_group thr valid ip st)). seg_text s \<noteq> whisper_prompt"
    using Cons.prems(2) by (intro merge_group_no_prompt)
  moreover from Cons.prems(1) have "snd ` set ips \<subseteq> set valid" by simp
  ultimately show ?case using Cons.IH by simp
qed

lemma merge_similar_segments_no_prompt:
  assumes "1 < length segments" and "s \<in> set (merge_similar_segments segments thr None)"
  shows "seg_text s \<noteq> whisper_prompt"
proof -
  let ?valid = "filter (\<lambda>seg. strip (seg_text seg) \<noteq> [] \<and> \<not> is_whisper_artifact (seg_text seg)) segments"
  from assms(1) have ne: "segments \<noteq> []" by auto
  have "snd ` set (enumerate 0 ?valid) \<subseteq> set ?valid"
    by (metis map_snd_enumerate set_map subset_refl)
  then have "\<forall>s \<in> set (fst (fold (merge_group thr ?valid) (enumerate 0 ?valid) ([], {}))).
      seg_text s \<noteq> whisper_prompt"
    by (intro fold_merge_group_no_prompt) simp_all
  moreover have "merge_similar_segments segments thr None =
      fst (fold (merge_group thr ?valid) (enumerate 0 ?valid) ([], {}))"
    using assms(1) ne by (simp add: merge_similar_segments_def Let_def)
  ultimately show ?thesis using assms(2) by simp
qed

text \<open>
  The timestamp lookup: every keypoint has an entry, entries only grow, and a segment
  whose text contains the keypoint adds its start to the entry.
\<close>

lemma dict_set_keys: "fst ` set (dict_set k v d) = insert k (fst ` set d)"
  by (induction k v d rule: dict_set.induct) (auto simp: image_iff split: if_splits)

lemma initial_keypoint_times:
  "fst ` set (fold (\<lambda>kp. dict_set kp v) kps d) = set kps \<union> fst ` set d"
  by (induction kps arbitrary: d) (auto simp: dict_set_keys)

lemma record_mention_grows:
  assumes "(k, ts) \<in> set kt"
  shows "\<exists>ts'. (k, ts') \<in> set (record_mention seg kp kt) \<and> set ts \<subseteq> set ts'"
proof (cases "str_in (lower kp) (lower (seg_text seg)) \<and> k = kp")
  case True
  with assms have "(k, ts @ [seg_start seg]) \<in> set (record_mention seg kp kt)"
    by (force simp: record_mention_def)
  then show ?thesis by (intro exI [of _ "ts @ [seg_start seg]"]) auto
next
  case False
  with assms have "(k, ts) \<in> set (record_mention seg kp kt)"
    by (force simp: record_mention_def)
  then show ?thesis by blast
qed

lemma record_mention_hit:
  assumes "(kp, ts) \<in> set kt" and "str_in (lower kp) (lower (seg_text seg))"
  shows "\<exists>ts'. (kp, ts') \<in> set (record_mention seg kp kt) \<and> seg_start seg \<in> set ts'"
proof -
  from assms have "(kp, ts @ [seg_start seg]) \<in> set (record_mention seg kp kt)"
    by (force simp: record_mention_def)
  then show ?thesis by (intro exI [of _ "ts @ [seg_start seg]"]) auto
qed

lemma fold_record_mention_grows:
  "(k, ts) \<in> set kt \<Longrightarrow>
   \<exists>ts'. (k, ts') \<in> set (fold (record_mention seg) kps kt) \<and> set ts \<subseteq> set ts'"
proof (induction kps arbitrary: kt ts)
  case Nil
  then show ?case by auto
next
  case (Cons kp kps)
  from record_mention_grows [OF Cons.prems] obtain ts1
    where 1: "(k, ts1) \<in> set (record_mention seg kp kt)" "set ts \<subseteq> set ts1" by blast
  from Cons.IH [OF 1(1)] obtain ts2
    where "(k, ts2) \<in> set (fold (record_mention seg) kps (record_mention seg kp kt))"
      "set ts1 \<subseteq> set ts2" by blast
  with 1(2) show ?case by auto
qed

lemma fold_record_mention_hit:
  assumes "kp \<in> set kps" and "str_in (lower kp) (lower (seg_text seg))"
  shows "(kp, ts) \<in> set kt \<Longrightarrow>
   \<exists>ts'. (kp, ts') \<in> set (fold (record_mention seg) kps kt) \<and> seg_start seg \<in> set ts'"
  using assms(1)
proof (induction kps arbitrary: kt ts)
  case Nil
  then show ?case by simp
next
  case (Cons k kps)
  show ?case
  proof (cases "k = kp")
    case True
    from record_mention_hit [OF Cons.prems(1) assms(2)] obtain ts1
      where 1: "(kp, ts1) \<in> set (record_mention seg kp kt)" "seg_start seg \<in> set ts1" by blast
    from fold_record_mention_grows [OF 1(1)] obtain ts2
      where "(kp, ts2) \<in> set (fold (record_mention seg) kps (record_mention seg kp kt))"
        "set ts1 \<subseteq> set ts2" by blast
    with 1(2) True show ?thesis by auto
  next
    case False
    with Cons.prems(2) have in_rest: "kp \<in> set kps" by simp
    from record_mention_grows [OF Cons.prems(1)] obtain ts1
      where "(kp, ts1) \<in> set (record_mention seg k kt)" by blast
    from Cons.IH [OF this in_rest] show ?thesis by simp
  qed
qed

lemma scan_grows:
  "(k, ts) \<in> set kt \<Longrightarrow>
   \<exists>ts'. (k, ts') \<in> set (fold (\<lambda>seg. fold (record_mention seg) kps) segs kt) \<and> set ts \<subseteq> set ts'"
proof (induction segs arbitrary: kt ts)
  case Nil
  then show ?case by auto
next
  case (Cons seg segs)
  from fold_record_mention_grows [OF Cons.prems] obtain ts1
    where 1: "(k, ts1) \<in> set (fold (record_mention seg) kps kt)" "set ts \<subseteq> set ts1" by blast
  from Cons.IH [OF 1(1)] obtain ts2
    where "(k, ts2) \<in> set (fold (\<lambda>seg. fold (record_mention seg) kps) segs
                               (fold (record_mention seg) kps kt))" "set ts1 \<subseteq> set ts2"
    by blast
  with 1(2) show ?case by auto
qed

lemma scan_hit:
  assumes "kp \<in> set kps" and "str_in (lower kp) (lower (seg_text seg))"
  shows "seg \<in> set segs \<Longrightarrow> (kp, ts) \<in> set kt \<Longrightarrow>
   \<exists>ts'. (kp, ts') \<in> set (fold (\<lambda>seg. fold (record_mention seg) kps) segs kt)
         \<and> seg_start seg \<in> set ts'"
proof (induction segs arbitrary: kt ts)
  case Nil
  then show ?case by simp
next
  case (Cons s segs)
  show ?case
  proof (cases "s = seg")
    case True
    from fold_record_mention_hit [OF assms Cons.prems(2)] obtain ts1
      where 1: "(kp, ts1) \<in> set (fold (record_mention seg) kps kt)" "seg_start seg \<in> set ts1"
      by blast
    from scan_grows [OF 1(1)] obtain ts2
      where "(kp, ts2) \<in> set (fold (\<lambda>seg. fold (record_mention seg) kps) segs
                                 (fold (record_mention seg) kps kt))" "set ts1 \<subseteq> set ts2"
      by blast
    with 1(2) True show ?thesis by auto
  next
    case False
    with Cons.prems(1) have in_rest: "seg \<in> set segs" by simp
    from fold_record_mention_grows [OF Cons.prems(2)] obtain ts1
      where "(kp, ts1) \<in> set (fold (record_mention s) kps kt)" by blast
    from Cons.IH [OF in_rest this] show ?thesis by simp
  qed
qed

lemma keypoint_times_records_start:
  assumes "seg \<in> set all_segments" and "kp \<in> set keypoints"
    and "str_in (lower kp) (lower (seg_text seg))"
  shows "\<exists>ts. (kp, ts) \<in> set (keypoint_times all_segments keypoints) \<and> seg_start seg \<in> set ts"
proof -
  let ?init = "fold (\<lambda>kp. dict_set kp []) keypoints ([] :: (string \<times> real list) list)"
  from assms(2) have "kp \<in> fst ` set ?init"
    by (simp add: initial_keypoint_times)
  then obtain ts0 where "(kp, ts0) \<in> set ?init"
    by force
  from scan_hit [OF assms(2,3,1) this] show ?thesis
    by (simp add: keypoint_times_def)
qed

text \<open>
  Claim C6, as stated, fails. A list of one segment is returned as it is, prompt or
  not. And the lookup runs over \<open>all_segments\<close>, not over the merged segments: the start
  12.0 of the prompt segment is recorded for the keypoint \<open>"nieuws"\<close>, although the
  segment merger has dropped that segment.
\<close>

theorem C6_counterexample:
  "merge_similar_segments [\<lparr>seg_start = 12, seg_end = 20, seg_text = whisper_prompt\<rparr>] (4 / 10) None
     = [\<lparr>seg_start = 12, seg_end = 20, seg_text = whisper_prompt\<rparr>]
   \<and> merge_similar_segments leaked_segments (4 / 10) None
     = [\<lparr>seg_start = 30, seg_end = 34, seg_text = ''het nieuws van vandaag over de economie''\<rparr>]
   \<and> keypoint_times leaked_segments [''nieuws''] = [(''nieuws'', [12, 30])]"
  by code_simp

text \<open>
  Claim C6, amended: for every list of two or more segments, no segment returned by
  \<open>merge_similar_segments\<close> has the injected prompt as its text; the timestamp lookup
  scans the segments as the transcriber returned them, so for every such segment whose
  text contains a keypoint (case-insensitively) the start of the segment is recorded
  for the keypoint, whether or not the segment is an artifact.
\<close>

theorem C6_prompt_segment:
  assumes "1 < length segments"
  shows "(\<forall>s \<in> set (merge_similar_segments segments similarity_threshold None).
            seg_text s \<noteq> whisper_prompt)
         \<and> (\<forall>seg \<in> set segments. \<forall>kp \<in> set keypoints.
              str_in (lower kp) (lower (seg_text seg)) \<longrightarrow>
              (\<exists>ts. (kp, ts) \<in> set (keypoint_times segments keypoints) \<and> seg_start seg \<in> set ts))"
  using assms merge_similar_segments_no_prompt keypoint_times_records_start by blast

text \<open>Claim C6, amended, on the two sample segments and the keypoint \<open>"nieuws"\<close>.\<close>

theorem C6_prompt_segment_witness:
  "1 < length leaked_segments
   \<and> whisper_prompt \<notin> seg_text ` set (merge_similar_segments leaked_segments (4 / 10) None)
   \<and> (\<exists>ts. (''nieuws'', ts) \<in> set (keypoint_times leaked_segments [''nieuws''])
           \<and> 12 \<in> set ts)"
proof -
  have h: "1 < length leaked_segments" by (simp add: leaked_segments_def)
  have m: "str_in (lower ''nieuws'') (lower (seg_text \<lparr>seg_start = 12, seg_end = 20, seg_text = whisper_prompt\<rparr>))"
    by code_simp
  have s: "\<lparr>seg_start = 12, seg_end = 20, seg_text = whisper_prompt\<rparr> \<in> set leaked_segments"
    by (simp add: leaked_segments_def)
  from C6_prompt_segment [OF h, of "4 / 10" "[''nieuws'']"] m s
  have "\<exists>ts. (''nieuws'', ts) \<in> set (keypoint_times leaked_segments [''nieuws''])
           \<and> seg_start \<lparr>seg_start = 12, seg_end = 20, seg_text = whisper_prompt\<rparr> \<in> set ts"
    by (metis list.set_intros(1))
  moreover from C6_prompt_segment [OF h, of "4 / 10" "[''nieuws'']"]
  have "whisper_prompt \<notin> seg_text ` set (merge_similar_segments leaked_segments (4 / 10) None)"
    by auto
  ultimately show ?thesis using h by simp
qed


section \<open>The filters under an empty stopword set\<close>

text \<open>
  Claim C10: with an empty stopword set both filters return the empty list, whatever
  the candidates are.
\<close>

theorem C10_empty_stopwords_drop_all:
  "filter_phrases_robust phrases {} = [] \<and> filter_words_robust words {} = []"
  by (simp add: filter_phrases_robust_def filter_words_robust_def)

text \<open>Claim C10 on two well-formed candidates.\<close>

theorem C10_empty_stopwords_drop_all_witness:
  "filter_phrases_robust [Cand (Some ''nieuwe corona maatregelen'') (7 / 10 :: rat)] {} = []
   \<and> filter_words_robust [Cand (Some ''corona'') (9 / 10 :: rat)] {} = []"
  using C10_empty_stopwords_drop_all
    [of "[Cand (Some ''nieuwe corona maatregelen'') (7 / 10 :: rat)]"
        "[Cand (Some ''corona'') (9 / 10 :: rat)]"]
  by simp

end
